theory Spec2Isabelle
  imports Complex_Main
begin

section \<open>K-fold cross-validation of the polynomial order\<close>

text \<open>
  The development embeds the third code cell of
  \<^verbatim>\<open>notebooks/chapter1/cross_validation.ipynb\<close>: the computation of the fold
  boundaries, the sweep over polynomial order and fold, the least-squares fit by the
  normal equations and the three mean squared losses. The cell is read as a function of
  the six values it takes from its environment: the column arrays \<open>x\<close>, \<open>t\<close>,
  \<open>x_test\<close>, \<open>t_test\<close> and the integers \<open>max_order\<close> and \<open>K\<close>; the
  variable \<open>N\<close> is the number of rows of \<open>x\<close>.

  Modelling decisions.
  \<^item> A float64 is a \<^typ>\<open>real\<close>: arithmetic is exact, there is no rounding and no
    overflow. The one non-number that the cell can produce from finite data, the NaN that
    \<^verbatim>\<open>.mean()\<close> returns on an array without elements, is kept as a value of its own.
  \<^item> \<^verbatim>\<open>np.linalg.solve\<close> is a float64 library routine. Its exact counterpart
    \<open>solve\<close> stands for it in \<open>evaluate\<close>; the two agree on whether an error is
    raised wherever the elimination meets no rounding, as on the small integer data of the
    examples below, and can differ elsewhere. What is said about the propagation of the
    solver's error is therefore proved for a sweep that takes the solver as a parameter.
  \<^item> An array of shape \<open>(n, 1)\<close> is the list of its \<open>n\<close> entries. An array of shape
    \<open>(n, d)\<close> is the list of its \<open>d\<close> columns, each a list of \<open>n\<close> entries, so that
    the shape \<open>(0, d)\<close> of a training subset without rows is not lost.
  \<^item> An exception is a value of \<^verbatim>\<open>error\<close>; the cell has no handler, so the first
    exception ends the whole computation.
  \<^item> \<^verbatim>\<open>np.delete\<close> is the one of the NumPy releases that run under the notebook's
    Python 2 kernel: indices outside the array are ignored.
\<close>

datatype error = ValueError | IndexError | LinAlgError

datatype npfloat = Num real | NaN

subsection \<open>Fold boundaries\<close>

text \<open>
  \<^verbatim>\<open>sizes = np.tile(np.int(N/float(10)),(1,K))\<close>: \<open>K\<close> copies of the truncated
  quotient of \<open>N\<close> by ten; a negative repetition count is refused.
\<close>

definition tile_sizes :: "nat \<Rightarrow> int \<Rightarrow> error + int list" where
  "tile_sizes N K = (if K < 0 then Inl ValueError else Inr (replicate (nat K) (int (N div 10))))"

text \<open>
  \<^verbatim>\<open>sizes[0,-1] = sizes[0,-1] + N - sizes.sum()\<close>: the last entry takes what is left;
  index \<open>-1\<close> does not exist in an array without entries.
\<close>

definition absorb_rest :: "nat \<Rightarrow> int list \<Rightarrow> error + int list" where
  "absorb_rest N sizes =
     (if sizes = [] then Inl IndexError
      else Inr (sizes[length sizes - 1 := last sizes + int N - sum_list sizes]))"

definition fold_sizes :: "nat \<Rightarrow> int \<Rightarrow> error + int list" where
  "fold_sizes N K = (case tile_sizes N K of Inl e \<Rightarrow> Inl e | Inr sizes \<Rightarrow> absorb_rest N sizes)"

fun cumsum :: "int \<Rightarrow> int list \<Rightarrow> int list" where
  "cumsum acc [] = []"
| "cumsum acc (s # ss) = (acc + s) # cumsum (acc + s) ss"

text \<open>\<^verbatim>\<open>c_sizes = np.hstack((0,np.cumsum(sizes)))\<close>\<close>

definition c_sizes :: "int list \<Rightarrow> int list" where
  "c_sizes sizes = 0 # cumsum 0 sizes"

subsection \<open>Array primitives\<close>

text \<open>A bound of a Python slice, brought into \<open>0..n\<close>.\<close>

definition slice_bound :: "nat \<Rightarrow> int \<Rightarrow> nat" where
  "slice_bound n i = (if i < 0 then nat (max 0 (i + int n)) else min n (nat i))"

text \<open>\<^verbatim>\<open>a[lo:hi]\<close> on the rows.\<close>

definition py_slice :: "int \<Rightarrow> int \<Rightarrow> 'a list \<Rightarrow> 'a list" where
  "py_slice lo hi xs =
     (let l = slice_bound (length xs) lo; h = slice_bound (length xs) hi
      in take (h - l) (drop l xs))"

text \<open>\<^verbatim>\<open>np.arange(lo,hi,1)\<close> on integers.\<close>

definition arange :: "int \<Rightarrow> int \<Rightarrow> int list" where
  "arange lo hi = [lo..hi - 1]"

text \<open>
  \<^verbatim>\<open>np.delete(a,obj,0)\<close> with an integer array \<open>obj\<close>: the rows whose index is in
  \<open>obj\<close> are dropped; entries of \<open>obj\<close> that are negative or beyond the last row are
  ignored.
\<close>

definition np_delete :: "'a list \<Rightarrow> int list \<Rightarrow> 'a list" where
  "np_delete xs obj = map fst (filter (\<lambda>(v, i). int i \<notin> set obj) (zip xs [0..<length xs]))"

definition nrows :: "'a list list \<Rightarrow> nat" where
  "nrows X = (case X of [] \<Rightarrow> 0 | c # _ \<Rightarrow> length c)"

definition dot :: "real list \<Rightarrow> real list \<Rightarrow> real" where
  "dot xs ys = sum_list (map2 (*) xs ys)"

text \<open>\<^verbatim>\<open>np.dot(X.T,X)\<close>: the matrix of the inner products of the columns.\<close>

definition dot_TM :: "real list list \<Rightarrow> real list list" where
  "dot_TM X = map (\<lambda>ci. map (\<lambda>cj. dot ci cj) X) X"

text \<open>\<^verbatim>\<open>np.dot(X.T,t)\<close>: defined when \<open>X\<close> and \<open>t\<close> have the same number of rows.\<close>

definition dot_Tv :: "real list list \<Rightarrow> real list \<Rightarrow> error + real list" where
  "dot_Tv X t = (if nrows X = length t then Inr (map (\<lambda>c. dot c t) X) else Inl ValueError)"

text \<open>\<^verbatim>\<open>np.dot(X,w)\<close>: defined when \<open>w\<close> has one entry for each column of \<open>X\<close>.\<close>

definition dot_Mv :: "real list list \<Rightarrow> real list \<Rightarrow> error + real list" where
  "dot_Mv X w =
     (if length X = length w then Inr (map (\<lambda>i. dot (map (\<lambda>c. c ! i) X) w) [0..<nrows X])
      else Inl ValueError)"

text \<open>
  \<^verbatim>\<open>p - q\<close> on two arrays of shapes \<open>(n, 1)\<close> and \<open>(m, 1)\<close>: broadcasting stretches
  an array with a single row to the rows of the other one.
\<close>

definition np_sub :: "real list \<Rightarrow> real list \<Rightarrow> error + real list" where
  "np_sub p q =
     (if length p = length q then Inr (map2 (-) p q)
      else if length p = 1 then Inr (map (\<lambda>b. hd p - b) q)
      else if length q = 1 then Inr (map (\<lambda>a. a - hd q) p)
      else Inl ValueError)"

text \<open>\<^verbatim>\<open>(d**2).mean()\<close>\<close>

definition mean_sq :: "real list \<Rightarrow> npfloat" where
  "mean_sq d = (if d = [] then NaN else Num (sum_list (map (\<lambda>v. v ^ 2) d) / real (length d)))"

subsection \<open>The linear solver\<close>

text \<open>
  \<^verbatim>\<open>np.linalg.solve(A,b)\<close> is a library routine: elimination with row exchanges in
  float64, which raises \<^verbatim>\<open>LinAlgError\<close> when it is left with a pivot that is exactly
  zero and otherwise returns a rounded solution. On a matrix that is singular it raises
  only if rounding leaves such a pivot. \<open>solve\<close> is the same elimination in exact
  arithmetic: it has no solution to return when a column has no pivot, and the choice of
  the pivot does not change the solution. An equation is a pair of its coefficients and
  its right-hand side.
\<close>

type_synonym equation = "real list \<times> real"

fun pivot_split :: "equation list \<Rightarrow> (equation \<times> equation list) option" where
  "pivot_split [] = None"
| "pivot_split (([], b) # es) = None"
| "pivot_split ((a # as, b) # es) =
     (if a \<noteq> 0 then Some ((a # as, b), es)
      else (case pivot_split es of None \<Rightarrow> None
            | Some (p, rest) \<Rightarrow> Some (p, (a # as, b) # rest)))"

definition eliminate :: "equation \<Rightarrow> equation \<Rightarrow> equation" where
  "eliminate p r =
     (let m = hd (fst r) / hd (fst p)
      in (map2 (\<lambda>c d. c - m * d) (tl (fst r)) (tl (fst p)), snd r - m * snd p))"

primrec gauss :: "nat \<Rightarrow> equation list \<Rightarrow> real list option" where
  "gauss 0 es = Some []"
| "gauss (Suc n) es =
     (case pivot_split es of None \<Rightarrow> None
      | Some (p, rest) \<Rightarrow>
          (case gauss n (map (eliminate p) rest) of None \<Rightarrow> None
           | Some ws \<Rightarrow> Some ((snd p - dot (tl (fst p)) ws) / hd (fst p) # ws)))"

definition solve :: "real list list \<Rightarrow> real list \<Rightarrow> real list option" where
  "solve A b = gauss (length A) (zip A b)"

subsection \<open>The sweep\<close>

record loss_table =
  cv_loss :: "npfloat list list"
  ind_loss :: "npfloat list list"
  train_loss :: "npfloat list list"

text \<open>\<^verbatim>\<open>a[fold,k] = v\<close>\<close>

definition set2 :: "'a list list \<Rightarrow> nat \<Rightarrow> nat \<Rightarrow> 'a \<Rightarrow> 'a list list" where
  "set2 a i j v = a[i := (a ! i)[j := v]]"

text \<open>The body of the inner loop: one pair of an order \<open>k\<close> and a fold \<open>f\<close>.\<close>

definition cell ::
  "real list list \<Rightarrow> real list list \<Rightarrow> real list \<Rightarrow> real list \<Rightarrow> int list \<Rightarrow> nat \<Rightarrow> nat \<Rightarrow>
   loss_table \<Rightarrow> error + loss_table" where
  "cell X X_test t t_test cs k f tbl =
     (let lo = cs ! f; hi = cs ! (f + 1);
          X_fold = map (py_slice lo hi) X;
          X_train = map (\<lambda>c. np_delete c (arange lo hi)) X;
          t_fold = py_slice lo hi t;
          t_train = np_delete t (arange lo hi)
      in case dot_Tv X_train t_train of Inl e \<Rightarrow> Inl e | Inr rhs \<Rightarrow>
         (case solve (dot_TM X_train) rhs of None \<Rightarrow> Inl LinAlgError | Some w \<Rightarrow>
         (case dot_Mv X_fold w of Inl e \<Rightarrow> Inl e | Inr fold_pred \<Rightarrow>
         (case np_sub fold_pred t_fold of Inl e \<Rightarrow> Inl e | Inr d_cv \<Rightarrow>
         (case dot_Mv X_test w of Inl e \<Rightarrow> Inl e | Inr ind_pred \<Rightarrow>
         (case np_sub ind_pred t_test of Inl e \<Rightarrow> Inl e | Inr d_ind \<Rightarrow>
         (case dot_Mv X_train w of Inl e \<Rightarrow> Inl e | Inr train_pred \<Rightarrow>
         (case np_sub train_pred t_train of Inl e \<Rightarrow> Inl e | Inr d_train \<Rightarrow>
            Inr (tbl\<lparr>cv_loss := set2 (cv_loss tbl) f k (mean_sq d_cv),
                     ind_loss := set2 (ind_loss tbl) f k (mean_sq d_ind),
                     train_loss := set2 (train_loss tbl) f k (mean_sq d_train)\<rparr>)))))))))"

text \<open>\<^verbatim>\<open>for fold in range(K)\<close>\<close>

fun folds_loop ::
  "real list list \<Rightarrow> real list list \<Rightarrow> real list \<Rightarrow> real list \<Rightarrow> int list \<Rightarrow> nat \<Rightarrow> nat list \<Rightarrow>
   loss_table \<Rightarrow> error + loss_table" where
  "folds_loop X X_test t t_test cs k [] tbl = Inr tbl"
| "folds_loop X X_test t t_test cs k (f # fs) tbl =
     (case cell X X_test t t_test cs k f tbl of Inl e \<Rightarrow> Inl e
      | Inr tbl' \<Rightarrow> folds_loop X X_test t t_test cs k fs tbl')"

text \<open>\<^verbatim>\<open>x**(k+1)\<close>, the column that \<^verbatim>\<open>np.hstack\<close> appends.\<close>

definition power_column :: "real list \<Rightarrow> nat \<Rightarrow> real list" where
  "power_column x j = map (\<lambda>v. v ^ j) x"

text \<open>\<^verbatim>\<open>for k in range(max_order+1)\<close>, with the two design matrices as loop state.\<close>

fun orders_loop ::
  "real list \<Rightarrow> real list \<Rightarrow> real list \<Rightarrow> real list \<Rightarrow> int list \<Rightarrow> nat \<Rightarrow> nat list \<Rightarrow>
   real list list \<Rightarrow> real list list \<Rightarrow> loss_table \<Rightarrow> error + loss_table" where
  "orders_loop x t x_test t_test cs K [] X X_test tbl = Inr tbl"
| "orders_loop x t x_test t_test cs K (k # ks) X X_test tbl =
     (case folds_loop X X_test t t_test cs k [0..<K] tbl of Inl e \<Rightarrow> Inl e
      | Inr tbl' \<Rightarrow>
          orders_loop x t x_test t_test cs K ks
            (X @ [power_column x (k + 1)]) (X_test @ [power_column x_test (k + 1)]) tbl')"

text \<open>\<^verbatim>\<open>np.ones_like\<close> and \<^verbatim>\<open>np.zeros((K,max_order+1))\<close>\<close>

definition ones_like :: "real list \<Rightarrow> real list list" where
  "ones_like x = [map (\<lambda>_. 1) x]"

definition zeros :: "nat \<Rightarrow> nat \<Rightarrow> npfloat list list" where
  "zeros r c = replicate r (replicate c (Num 0))"

definition evaluate ::
  "real list \<Rightarrow> real list \<Rightarrow> real list \<Rightarrow> real list \<Rightarrow> nat \<Rightarrow> int \<Rightarrow> error + loss_table" where
  "evaluate x t x_test t_test max_order K =
     (case fold_sizes (length x) K of Inl e \<Rightarrow> Inl e
      | Inr sizes \<Rightarrow>
          orders_loop x t x_test t_test (c_sizes sizes) (nat K) [0..<max_order + 1]
            (ones_like x) (ones_like x_test)
            \<lparr>cv_loss = zeros (nat K) (max_order + 1),
             ind_loss = zeros (nat K) (max_order + 1),
             train_loss = zeros (nat K) (max_order + 1)\<rparr>)"

subsection \<open>The sweep over any solver\<close>

text \<open>
  The same cell with the routine behind \<^verbatim>\<open>np.linalg.solve\<close> as a parameter \<open>S\<close>:
  \<open>S A b = None\<close> stands for a call that raises \<^verbatim>\<open>LinAlgError\<close>, and
  \<open>S A b = Some w\<close> for one that returns \<open>w\<close>. Every other line is the line of
  \<open>cell\<close>, \<open>folds_loop\<close>, \<open>orders_loop\<close> and \<open>evaluate\<close>.
\<close>

type_synonym solver = "real list list \<Rightarrow> real list \<Rightarrow> real list option"

definition cell_with ::
  "solver \<Rightarrow> real list list \<Rightarrow> real list list \<Rightarrow> real list \<Rightarrow> real list \<Rightarrow> int list \<Rightarrow> nat \<Rightarrow>
   nat \<Rightarrow> loss_table \<Rightarrow> error + loss_table" where
  "cell_with S X X_test t t_test cs k f tbl =
     (let lo = cs ! f; hi = cs ! (f + 1);
          X_fold = map (py_slice lo hi) X;
          X_train = map (\<lambda>c. np_delete c (arange lo hi)) X;
          t_fold = py_slice lo hi t;
          t_train = np_delete t (arange lo hi)
      in case dot_Tv X_train t_train of Inl e \<Rightarrow> Inl e | Inr rhs \<Rightarrow>
         (case S (dot_TM X_train) rhs of None \<Rightarrow> Inl LinAlgError | Some w \<Rightarrow>
         (case dot_Mv X_fold w of Inl e \<Rightarrow> Inl e | Inr fold_pred \<Rightarrow>
         (case np_sub fold_pred t_fold of Inl e \<Rightarrow> Inl e | Inr d_cv \<Rightarrow>
         (case dot_Mv X_test w of Inl e \<Rightarrow> Inl e | Inr ind_pred \<Rightarrow>
         (case np_sub ind_pred t_test of Inl e \<Rightarrow> Inl e | Inr d_ind \<Rightarrow>
         (case dot_Mv X_train w of Inl e \<Rightarrow> Inl e | Inr train_pred \<Rightarrow>
         (case np_sub train_pred t_train of Inl e \<Rightarrow> Inl e | Inr d_train \<Rightarrow>
            Inr (tbl\<lparr>cv_loss := set2 (cv_loss tbl) f k (mean_sq d_cv),
                     ind_loss := set2 (ind_loss tbl) f k (mean_sq d_ind),
                     train_loss := set2 (train_loss tbl) f k (mean_sq d_train)\<rparr>)))))))))"

fun folds_loop_with ::
  "solver \<Rightarrow> real list list \<Rightarrow> real list list \<Rightarrow> real list \<Rightarrow> real list \<Rightarrow> int list \<Rightarrow> nat \<Rightarrow>
   nat list \<Rightarrow> loss_table \<Rightarrow> error + loss_table" where
  "folds_loop_with S X X_test t t_test cs k [] tbl = Inr tbl"
| "folds_loop_with S X X_test t t_test cs k (f # fs) tbl =
     (case cell_with S X X_test t t_test cs k f tbl of Inl e \<Rightarrow> Inl e
      | Inr tbl' \<Rightarrow> folds_loop_with S X X_test t t_test cs k fs tbl')"

fun orders_loop_with ::
  "solver \<Rightarrow> real list \<Rightarrow> real list \<Rightarrow> real list \<Rightarrow> real list \<Rightarrow> int list \<Rightarrow> nat \<Rightarrow> nat list \<Rightarrow>
   real list list \<Rightarrow> real list list \<Rightarrow> loss_table \<Rightarrow> error + loss_table" where
  "orders_loop_with S x t x_test t_test cs K [] X X_test tbl = Inr tbl"
| "orders_loop_with S x t x_test t_test cs K (k # ks) X X_test tbl =
     (case folds_loop_with S X X_test t t_test cs k [0..<K] tbl of Inl e \<Rightarrow> Inl e
      | Inr tbl' \<Rightarrow>
          orders_loop_with S x t x_test t_test cs K ks
            (X @ [power_column x (k + 1)]) (X_test @ [power_column x_test (k + 1)]) tbl')"

definition evaluate_with ::
  "solver \<Rightarrow> real list \<Rightarrow> real list \<Rightarrow> real list \<Rightarrow> real list \<Rightarrow> nat \<Rightarrow> int \<Rightarrow>
   error + loss_table" where
  "evaluate_with S x t x_test t_test max_order K =
     (case fold_sizes (length x) K of Inl e \<Rightarrow> Inl e
      | Inr sizes \<Rightarrow>
          orders_loop_with S x t x_test t_test (c_sizes sizes) (nat K) [0..<max_order + 1]
            (ones_like x) (ones_like x_test)
            \<lparr>cv_loss = zeros (nat K) (max_order + 1),
             ind_loss = zeros (nat K) (max_order + 1),
             train_loss = zeros (nat K) (max_order + 1)\<rparr>)"

section \<open>Reference definitions\<close>

text \<open>
  The balanced partition in the words of the specification: every fold has the size
  \<open>floor(N/K)\<close>, and the last fold takes the remainder as well.
\<close>

definition spec_fold_sizes :: "nat \<Rightarrow> int \<Rightarrow> int list" where
  "spec_fold_sizes N K =
     replicate (nat K - 1) (int (N div nat K)) @ [int N - (K - 1) * int (N div nat K)]"

text \<open>
  The matrix of the monomial features \<open>1, x, x\<^sup>2, \<dots>, x\<^sup>k\<close>, built from nothing:
  column \<open>j\<close> holds the \<open>j\<close>-th powers of the inputs. The sweep below rebuilds it for
  both data sets at every order.
\<close>

definition design :: "real list \<Rightarrow> nat \<Rightarrow> real list list" where
  "design x k = map (\<lambda>j. map (\<lambda>v. v ^ j) x) [0..<k + 1]"

fun orders_scratch ::
  "real list \<Rightarrow> real list \<Rightarrow> real list \<Rightarrow> real list \<Rightarrow> int list \<Rightarrow> nat \<Rightarrow> nat list \<Rightarrow>
   loss_table \<Rightarrow> error + loss_table" where
  "orders_scratch x t x_test t_test cs K [] tbl = Inr tbl"
| "orders_scratch x t x_test t_test cs K (k # ks) tbl =
     (case folds_loop (design x k) (design x_test k) t t_test cs k [0..<K] tbl of Inl e \<Rightarrow> Inl e
      | Inr tbl' \<Rightarrow> orders_scratch x t x_test t_test cs K ks tbl')"

definition evaluate_scratch ::
  "real list \<Rightarrow> real list \<Rightarrow> real list \<Rightarrow> real list \<Rightarrow> nat \<Rightarrow> int \<Rightarrow> error + loss_table" where
  "evaluate_scratch x t x_test t_test max_order K =
     (case fold_sizes (length x) K of Inl e \<Rightarrow> Inl e
      | Inr sizes \<Rightarrow>
          orders_scratch x t x_test t_test (c_sizes sizes) (nat K) [0..<max_order + 1]
            \<lparr>cv_loss = zeros (nat K) (max_order + 1),
             ind_loss = zeros (nat K) (max_order + 1),
             train_loss = zeros (nat K) (max_order + 1)\<rparr>)"

text \<open>
  The rows that fold \<open>f\<close> holds out are those with an index from \<open>cs ! f\<close> up to, but
  not including, \<open>cs ! (f + 1)\<close>; the training subset is made of all other rows.
\<close>

definition held_out :: "int list \<Rightarrow> nat \<Rightarrow> nat set" where
  "held_out cs f = {i. cs ! f \<le> int i \<and> int i < cs ! (f + 1)}"

definition held_out_rows :: "int list \<Rightarrow> nat \<Rightarrow> 'a list \<Rightarrow> 'a list" where
  "held_out_rows cs f xs = nths xs (held_out cs f)"

definition training_rows :: "int list \<Rightarrow> nat \<Rightarrow> 'a list \<Rightarrow> 'a list" where
  "training_rows cs f xs = nths xs (- held_out cs f)"

text \<open>
  The product of a matrix and a vector of matching shapes, and the solution of the normal
  equations \<open>(X\<^sup>T X) w = X\<^sup>T t\<close>.
\<close>

definition predict :: "real list list \<Rightarrow> real list \<Rightarrow> real list" where
  "predict X w = map (\<lambda>i. dot (map (\<lambda>c. c ! i) X) w) [0..<nrows X]"

definition normal_solve :: "real list list \<Rightarrow> real list \<Rightarrow> real list option" where
  "normal_solve X t = solve (dot_TM X) (map (\<lambda>c. dot c t) X)"

text \<open>The call of a solver \<open>S\<close> on the normal equations of \<open>X\<close> and \<open>t\<close>.\<close>

definition normal_with :: "solver \<Rightarrow> real list list \<Rightarrow> real list \<Rightarrow> real list option" where
  "normal_with S X t = S (dot_TM X) (map (\<lambda>c. dot c t) X)"

section \<open>Derived notions\<close>

text \<open>
  What one pair of an order and a fold computes, apart from the table: the coefficients
  and the three losses. \<open>fit_rows\<close> is the body of \<open>cell\<close> up to the three
  assignments, as a function of the two boundaries of the fold.
\<close>

record fit =
  coefficients :: "real list"
  cv :: npfloat
  ind :: npfloat
  train :: npfloat

definition fit_rows ::
  "real list list \<Rightarrow> real list list \<Rightarrow> real list \<Rightarrow> real list \<Rightarrow> int \<Rightarrow> int \<Rightarrow> error + fit" where
  "fit_rows X X_test t t_test lo hi =
     (let X_fold = map (py_slice lo hi) X;
          X_train = map (\<lambda>c. np_delete c (arange lo hi)) X;
          t_fold = py_slice lo hi t;
          t_train = np_delete t (arange lo hi)
      in case dot_Tv X_train t_train of Inl e \<Rightarrow> Inl e | Inr rhs \<Rightarrow>
         (case solve (dot_TM X_train) rhs of None \<Rightarrow> Inl LinAlgError | Some w \<Rightarrow>
         (case dot_Mv X_fold w of Inl e \<Rightarrow> Inl e | Inr fold_pred \<Rightarrow>
         (case np_sub fold_pred t_fold of Inl e \<Rightarrow> Inl e | Inr d_cv \<Rightarrow>
         (case dot_Mv X_test w of Inl e \<Rightarrow> Inl e | Inr ind_pred \<Rightarrow>
         (case np_sub ind_pred t_test of Inl e \<Rightarrow> Inl e | Inr d_ind \<Rightarrow>
         (case dot_Mv X_train w of Inl e \<Rightarrow> Inl e | Inr train_pred \<Rightarrow>
         (case np_sub train_pred t_train of Inl e \<Rightarrow> Inl e | Inr d_train \<Rightarrow>
            Inr \<lparr>coefficients = w, cv = mean_sq d_cv, ind = mean_sq d_ind,
                 train = mean_sq d_train\<rparr>))))))))"

definition fit_fold ::
  "real list list \<Rightarrow> real list list \<Rightarrow> real list \<Rightarrow> real list \<Rightarrow> int list \<Rightarrow> nat \<Rightarrow> error + fit" where
  "fit_fold X X_test t t_test cs f = fit_rows X X_test t t_test (cs ! f) (cs ! (f + 1))"

definition record_fit :: "loss_table \<Rightarrow> nat \<Rightarrow> nat \<Rightarrow> fit \<Rightarrow> loss_table" where
  "record_fit tbl f k r =
     tbl\<lparr>cv_loss := set2 (cv_loss tbl) f k (cv r),
         ind_loss := set2 (ind_loss tbl) f k (ind r),
         train_loss := set2 (train_loss tbl) f k (train r)\<rparr>"

text \<open>The three arrays of a table have \<open>r\<close> rows of \<open>c\<close> entries.\<close>

definition shaped :: "nat \<Rightarrow> nat \<Rightarrow> loss_table \<Rightarrow> bool" where
  "shaped r c tbl \<longleftrightarrow>
     length (cv_loss tbl) = r \<and> (\<forall>row \<in> set (cv_loss tbl). length row = c) \<and>
     length (ind_loss tbl) = r \<and> (\<forall>row \<in> set (ind_loss tbl). length row = c) \<and>
     length (train_loss tbl) = r \<and> (\<forall>row \<in> set (train_loss tbl). length row = c)"

text \<open>The entry of a fold and an order holds the losses of a fit.\<close>

definition recorded :: "loss_table \<Rightarrow> nat \<Rightarrow> nat \<Rightarrow> fit \<Rightarrow> bool" where
  "recorded tbl f k r \<longleftrightarrow>
     cv_loss tbl ! f ! k = cv r \<and> ind_loss tbl ! f ! k = ind r \<and> train_loss tbl ! f ! k = train r"

definition same_entry :: "loss_table \<Rightarrow> loss_table \<Rightarrow> nat \<Rightarrow> nat \<Rightarrow> bool" where
  "same_entry tbl tbl' f k \<longleftrightarrow>
     cv_loss tbl' ! f ! k = cv_loss tbl ! f ! k \<and> ind_loss tbl' ! f ! k = ind_loss tbl ! f ! k \<and>
     train_loss tbl' ! f ! k = train_loss tbl ! f ! k"

section \<open>Fold sizes\<close>

lemma fold_sizes_Suc:
  "fold_sizes N (int (Suc m)) =
     Inr (replicate m (int (N div 10)) @ [int N - int m * int (N div 10)])"
proof -
  let ?s = "int (N div 10)"
  have r: "replicate (Suc m) ?s = replicate m ?s @ [?s]"
    by (simp add: replicate_append_same)
  have tl: "tile_sizes N (int (Suc m)) = Inr (replicate (Suc m) ?s)"
    by (simp add: tile_sizes_def del: of_nat_Suc replicate_Suc)
  have "absorb_rest N (replicate m ?s @ [?s]) =
          Inr (replicate m ?s @ [?s + int N - (int m * ?s + ?s)])"
    by (simp add: absorb_rest_def sum_list_replicate list_update_append)
  then show ?thesis
    unfolding fold_sizes_def tl r by (simp add: algebra_simps)
qed

lemma fold_sizes_pos:
  assumes "1 \<le> K"
  shows "fold_sizes N K =
    Inr (replicate (nat K - 1) (int (N div 10)) @ [int N - (K - 1) * int (N div 10)])"
proof -
  from assms have "K = int (Suc (nat K - 1))" by simp
  then obtain m where K: "K = int (Suc m)" ..
  show ?thesis unfolding K fold_sizes_Suc by simp
qed

text \<open>
  Claim C10, as the cell has it. The size of a fold is computed from the constant ten, not
  from \<open>K\<close>: for every fold count \<open>K \<ge> 1\<close> the first \<open>K - 1\<close> folds have
  \<open>floor(N/10)\<close> rows and the last one has \<open>N - (K-1) * floor(N/10)\<close>. These sizes
  are the balanced ones of the specification exactly when \<open>floor(N/10) = floor(N/K)\<close>,
  as it is for \<open>K = 10\<close>, or when there is a single fold, which holds all rows under
  either rule.
\<close>

theorem fold_sizes_use_ten:
  assumes "1 \<le> K"
  shows "fold_sizes N K =
           Inr (replicate (nat K - 1) (int (N div 10)) @ [int N - (K - 1) * int (N div 10)])
         \<and> (fold_sizes N K = Inr (spec_fold_sizes N K) \<longleftrightarrow> K = 1 \<or> N div 10 = N div nat K)"
proof
  show a: "fold_sizes N K =
           Inr (replicate (nat K - 1) (int (N div 10)) @ [int N - (K - 1) * int (N div 10)])"
    using assms by (rule fold_sizes_pos)
  show "fold_sizes N K = Inr (spec_fold_sizes N K) \<longleftrightarrow> K = 1 \<or> N div 10 = N div nat K"
  proof (cases "K = 1")
    case True
    then show ?thesis unfolding a spec_fold_sizes_def by simp
  next
    case False
    then have "0 < nat K - 1" using assms by simp
    then obtain m where m: "nat K - 1 = Suc m" by (cases "nat K - 1") auto
    show ?thesis unfolding a spec_fold_sizes_def m using False by auto
  qed
qed

theorem fold_sizes_use_ten_witness:
  "(1::int) \<le> 4 \<and> fold_sizes 20 4 = Inr [2, 2, 2, 14]
   \<and> fold_sizes 20 4 \<noteq> Inr (spec_fold_sizes 20 4)"
proof -
  have h: "(1::int) \<le> 4" by simp
  have a: "replicate (nat 4 - 1) (int (20 div 10)) @ [int 20 - (4 - 1) * int (20 div 10)] =
             [2, 2, 2, 14]"
    by code_simp
  have b: "\<not> (4 = (1::int) \<or> (20::nat) div 10 = 20 div nat 4)" by simp
  from fold_sizes_use_ten [OF h, of 20] have
    "fold_sizes 20 4 = Inr [2, 2, 2, 14] \<and> fold_sizes 20 4 \<noteq> Inr (spec_fold_sizes 20 4)"
    unfolding a using b by blast
  with h show ?thesis by blast
qed

text \<open>
  Claim C10 as stated, refuted in its last part: with five rows and a single fold the sizes
  of the cell are the balanced ones, although \<open>K\<close> is not ten and \<open>floor(N/10) = 0\<close>
  is not \<open>floor(N/K) = 5\<close>.
\<close>

theorem fold_sizes_single_fold_counterexample:
  "fold_sizes 5 1 = Inr (spec_fold_sizes 5 1) \<and> (1::int) \<noteq> 10
   \<and> (5::nat) div 10 \<noteq> 5 div nat 1"
  by code_simp

lemma fold_sizes_Inr_pos: "fold_sizes N K = Inr sizes \<Longrightarrow> 1 \<le> K"
  by (auto simp: fold_sizes_def tile_sizes_def absorb_rest_def split: if_splits)

lemma fold_sizes_sum:
  assumes "fold_sizes N K = Inr sizes"
  shows "length sizes = nat K \<and> sum_list sizes = int N"
proof -
  from assms have "1 \<le> K" by (rule fold_sizes_Inr_pos)
  then have "K = int (Suc (nat K - 1))" by simp
  then obtain m where K: "K = int (Suc m)" ..
  have s: "sizes = replicate m (int (N div 10)) @ [int N - int m * int (N div 10)]"
    using assms unfolding K fold_sizes_Suc by simp
  have nK: "nat K = Suc m" unfolding K by (rule nat_int)
  show ?thesis unfolding s nK by (simp add: sum_list_replicate)
qed

lemma cumsum_append: "cumsum acc (xs @ ys) = cumsum acc xs @ cumsum (acc + sum_list xs) ys"
  by (induction xs arbitrary: acc) (simp_all add: add.assoc)

lemma length_cumsum [simp]: "length (cumsum acc xs) = length xs"
  by (induction xs arbitrary: acc) simp_all

lemma cumsum_replicate_nth:
  "i < m \<Longrightarrow> cumsum acc (replicate m s) ! i = acc + (int i + 1) * s"
proof (induction m arbitrary: acc i)
  case 0
  then show ?case by simp
next
  case (Suc m)
  show ?case
  proof (cases i)
    case 0
    then show ?thesis by simp
  next
    case (Suc j)
    with Suc.prems have "j < m" by simp
    from Suc.IH [OF this, of "acc + s"] show ?thesis unfolding Suc
      by (simp add: algebra_simps)
  qed
qed

lemma c_sizes_inner:
  assumes "f \<le> m"
  shows "c_sizes (replicate m s @ [r]) ! f = int f * s"
proof (cases f)
  case 0
  then show ?thesis by (simp add: c_sizes_def)
next
  case (Suc j)
  with assms have j: "j < m" by simp
  have "c_sizes (replicate m s @ [r]) ! f = (cumsum 0 (replicate m s) @ cumsum (0 + sum_list (replicate m s)) [r]) ! j"
    unfolding Suc c_sizes_def cumsum_append by simp
  also have "\<dots> = cumsum 0 (replicate m s) ! j"
    using j by (simp add: nth_append)
  also have "\<dots> = (int j + 1) * s" using cumsum_replicate_nth [OF j, of 0 s] by simp
  finally show ?thesis unfolding Suc by simp
qed

lemma c_sizes_last: "c_sizes (replicate m s @ [r]) ! (Suc m) = int m * s + r"
proof -
  have "c_sizes (replicate m s @ [r]) ! (Suc m) =
      (cumsum 0 (replicate m s) @ cumsum (0 + sum_list (replicate m s)) [r]) ! m"
    unfolding c_sizes_def cumsum_append by simp
  also have "\<dots> = int m * s + r"
    by (simp add: nth_append sum_list_replicate)
  finally show ?thesis .
qed

lemma c_sizes_fold:
  assumes "fold_sizes N K = Inr sizes" and "f < nat K"
  shows "c_sizes sizes ! f = int f * int (N div 10)"
    and "c_sizes sizes ! (f + 1) =
           (if f + 1 = nat K then int N else int (f + 1) * int (N div 10))"
proof -
  from assms(2) have "K = int (Suc (nat K - 1))" by simp
  then obtain m where K: "K = int (Suc m)" ..
  have s: "sizes = replicate m (int (N div 10)) @ [int N - int m * int (N div 10)]"
    using assms(1) unfolding K fold_sizes_Suc by simp
  have nK: "nat K = Suc m" unfolding K by (rule nat_int)
  have fm: "f \<le> m" using assms(2) nK by simp
  show "c_sizes sizes ! f = int f * int (N div 10)"
    unfolding s using fm by (rule c_sizes_inner)
  show "c_sizes sizes ! (f + 1) =
           (if f + 1 = nat K then int N else int (f + 1) * int (N div 10))"
  proof (cases "f = m")
    case True
    have "c_sizes sizes ! Suc m = int N"
      unfolding s c_sizes_last by simp
    then show ?thesis unfolding nK using True by simp
  next
    case False
    with fm have "f + 1 \<le> m" by simp
    then have "c_sizes sizes ! (f + 1) = int (f + 1) * int (N div 10)"
      unfolding s by (rule c_sizes_inner)
    then show ?thesis unfolding nK using False by simp
  qed
qed

lemma c_sizes_nonneg:
  assumes "fold_sizes N K = Inr sizes" and "f < nat K"
  shows "0 \<le> c_sizes sizes ! f" and "0 \<le> c_sizes sizes ! (f + 1)"
  using c_sizes_fold [OF assms] by simp_all

lemma held_out_fold:
  assumes "fold_sizes N K = Inr sizes" and "f < nat K"
  shows "i \<in> held_out (c_sizes sizes) f \<longleftrightarrow>
    f * (N div 10) \<le> i \<and> (if f + 1 = nat K then i < N else i < (f + 1) * (N div 10))"
proof -
  note c = c_sizes_fold [OF assms]
  have "int f * int (N div 10) \<le> int i \<longleftrightarrow> f * (N div 10) \<le> i"
    by (metis of_nat_le_iff of_nat_mult)
  moreover have "int i < int (f + 1) * int (N div 10) \<longleftrightarrow> i < (f + 1) * (N div 10)"
    by (metis of_nat_less_iff of_nat_mult)
  ultimately show ?thesis unfolding held_out_def mem_Collect_eq c by simp
qed

text \<open>
  Whatever the sizes are, for a fold count of at least one the folds are contiguous
  ranges that cover every row exactly once.
\<close>

lemma folds_partition:
  assumes "fold_sizes N K = Inr sizes" and "i < N"
  shows "\<exists>!f. f < nat K \<and> i \<in> held_out (c_sizes sizes) f"
proof -
  from assms(1) have "1 \<le> K" by (rule fold_sizes_Inr_pos)
  then obtain m where m: "nat K = Suc m" by (cases "nat K") auto
  let ?s = "N div 10"
  note h = held_out_fold [OF assms(1)]
  show ?thesis
  proof (cases "i < m * ?s")
    case True
    then have s0: "0 < ?s" by (cases "?s = 0") auto
    let ?g = "i div ?s"
    have gm: "?g < m" using True by (simp add: less_mult_imp_div_less)
    have lo: "?g * ?s \<le> i" by simp
    have hi: "i < (?g + 1) * ?s" using s0 by (simp add: dividend_less_div_times)
    have in_g: "?g < nat K \<and> i \<in> held_out (c_sizes sizes) ?g"
      using gm lo hi m by (simp add: h)
    have "f = ?g" if f: "f < nat K" "i \<in> held_out (c_sizes sizes) f" for f
    proof (cases "f = m")
      case True
      with f have "m * ?s \<le> i" by (simp add: h)
      with \<open>i < m * ?s\<close> show ?thesis by simp
    next
      case False
      with f m have "f * ?s \<le> i" "i < (f + 1) * ?s" by (simp_all add: h)
      then have "i div ?s = f" by (intro div_nat_eqI) (simp_all add: mult.commute)
      then show ?thesis by simp
    qed
    with in_g show ?thesis by blast
  next
    case False
    then have lo: "m * ?s \<le> i" by simp
    have in_m: "m < nat K \<and> i \<in> held_out (c_sizes sizes) m"
      using lo assms(2) m by (simp add: h)
    have "f = m" if f: "f < nat K" "i \<in> held_out (c_sizes sizes) f" for f
    proof (rule ccontr)
      assume "f \<noteq> m"
      with f m have fm: "f < m" and "i < (f + 1) * ?s" by (simp_all add: h)
      moreover from fm have "(f + 1) * ?s \<le> m * ?s" by (intro mult_le_mono1) simp
      ultimately show False using lo by simp
    qed
    with in_m show ?thesis by blast
  qed
qed

text \<open>
  Claim C2. The folds are meant to have \<open>floor(N/K)\<close> rows each, the last one taking
  the remainder. For twenty rows and four folds that is \<open>5, 5, 5, 5\<close>; the cell computes
  \<open>2, 2, 2, 14\<close>, because it divides by ten.
\<close>

theorem fold_sizes_unbalanced:
  "fold_sizes 20 4 = Inr [2, 2, 2, 14] \<and> spec_fold_sizes 20 4 = [5, 5, 5, 5]"
  by code_simp

section \<open>The table of losses\<close>

lemma cell_fit_fold:
  "cell X X_test t t_test cs k f tbl =
     (case fit_fold X X_test t t_test cs f of Inl e \<Rightarrow> Inl e
      | Inr r \<Rightarrow> Inr (record_fit tbl f k r))"
  by (simp add: cell_def fit_fold_def fit_rows_def record_fit_def Let_def split: sum.splits option.splits)

lemma set2_length: "length (set2 a i j v) = length a"
  by (simp add: set2_def)

lemma set2_rows:
  assumes "\<forall>row \<in> set a. length row = c"
  shows "\<forall>row \<in> set (set2 a i j v). length row = c"
proof (cases "i < length a")
  case True
  have "set (set2 a i j v) \<subseteq> insert ((a ! i)[j := v]) (set a)"
    unfolding set2_def by (rule set_update_subset_insert)
  moreover have "length ((a ! i)[j := v]) = c"
    using assms True by simp
  ultimately show ?thesis using assms by blast
next
  case False
  then have "set2 a i j v = a" by (simp add: set2_def list_update_beyond)
  then show ?thesis using assms by simp
qed

lemma set2_nth:
  assumes "i < length a" "j < length (a ! i)"
  shows "set2 a i j v ! i ! j = v"
  using assms by (simp add: set2_def)

lemma set2_other:
  assumes "i' \<noteq> i \<or> j' \<noteq> j"
  shows "set2 a i j v ! i' ! j' = a ! i' ! j'"
proof (cases "i' = i")
  case True
  then have j: "j' \<noteq> j" using assms by simp
  show ?thesis
  proof (cases "i < length a")
    case True
    then show ?thesis using \<open>i' = i\<close> j by (simp add: set2_def)
  next
    case False
    then show ?thesis by (simp add: set2_def list_update_beyond)
  qed
next
  case False
  then show ?thesis by (simp add: set2_def)
qed

lemma record_fit_shaped:
  assumes "shaped r c tbl"
  shows "shaped r c (record_fit tbl f k q)"
proof -
  from assms have a: "\<forall>row \<in> set (cv_loss tbl). length row = c"
    and b: "\<forall>row \<in> set (ind_loss tbl). length row = c"
    and d: "\<forall>row \<in> set (train_loss tbl). length row = c"
    and l: "length (cv_loss tbl) = r" "length (ind_loss tbl) = r" "length (train_loss tbl) = r"
    unfolding shaped_def by blast+
  have 1: "\<forall>row \<in> set (set2 (cv_loss tbl) f k (cv q)). length row = c"
    using a by (rule set2_rows)
  have 2: "\<forall>row \<in> set (set2 (ind_loss tbl) f k (ind q)). length row = c"
    using b by (rule set2_rows)
  have 3: "\<forall>row \<in> set (set2 (train_loss tbl) f k (train q)). length row = c"
    using d by (rule set2_rows)
  show ?thesis
    unfolding shaped_def record_fit_def using 1 2 3 l by (simp add: set2_length)
qed

lemma record_fit_recorded:
  assumes "shaped r c tbl" "f < r" "k < c"
  shows "recorded (record_fit tbl f k q) f k q"
  using assms unfolding shaped_def recorded_def record_fit_def
  by (simp add: set2_nth)

lemma record_fit_other:
  assumes "f' \<noteq> f \<or> k' \<noteq> k"
  shows "same_entry tbl (record_fit tbl f k q) f' k'"
  using assms unfolding same_entry_def record_fit_def by (simp add: set2_other)

lemma recorded_same: "same_entry tbl tbl' f k \<Longrightarrow> recorded tbl f k q \<Longrightarrow> recorded tbl' f k q"
  by (simp add: same_entry_def recorded_def)

lemma same_entry_trans:
  "same_entry a b f k \<Longrightarrow> same_entry b c f k \<Longrightarrow> same_entry a c f k"
  by (simp add: same_entry_def)

lemma same_entry_refl: "same_entry a a f k"
  by (simp add: same_entry_def)

text \<open>
  A run of the inner loop that ends without error has recorded, for each of its folds,
  the fit of that fold, and has left every other entry as it was.
\<close>

lemma folds_loop_Inr:
  assumes "folds_loop X X_test t t_test cs k fs tbl = Inr tbl'"
    and "shaped r c tbl" and "k < c" and "\<forall>f \<in> set fs. f < r" and "distinct fs"
  shows "shaped r c tbl'
    \<and> (\<forall>f \<in> set fs. \<exists>q. fit_fold X X_test t t_test cs f = Inr q \<and> recorded tbl' f k q)
    \<and> (\<forall>f' k'. f' \<notin> set fs \<or> k' \<noteq> k \<longrightarrow> same_entry tbl tbl' f' k')"
  using assms
proof (induction fs arbitrary: tbl)
  case Nil
  then show ?case by (simp add: same_entry_refl)
next
  case (Cons f fs)
  from Cons.prems(1) obtain q where q: "fit_fold X X_test t t_test cs f = Inr q"
    and rest: "folds_loop X X_test t t_test cs k fs (record_fit tbl f k q) = Inr tbl'"
    by (auto simp: cell_fit_fold split: sum.splits)
  let ?t1 = "record_fit tbl f k q"
  have s1: "shaped r c ?t1" using Cons.prems(2) by (rule record_fit_shaped)
  from Cons.prems have fr: "f < r" and fs: "\<forall>f \<in> set fs. f < r" and d: "distinct fs"
    and nf: "f \<notin> set fs" by auto
  note IH = Cons.IH [OF rest s1 Cons.prems(3) fs d]
  have r1: "recorded ?t1 f k q" using Cons.prems(2) fr Cons.prems(3) by (rule record_fit_recorded)
  have "same_entry ?t1 tbl' f k" using IH nf by blast
  then have rf: "recorded tbl' f k q" using r1 by (rule recorded_same)
  have other: "same_entry tbl tbl' f' k'" if "f' \<notin> set (f # fs) \<or> k' \<noteq> k" for f' k'
  proof -
    from that have a: "f' \<noteq> f \<or> k' \<noteq> k" and b: "f' \<notin> set fs \<or> k' \<noteq> k" by auto
    have "same_entry tbl ?t1 f' k'" using a by (rule record_fit_other)
    moreover have "same_entry ?t1 tbl' f' k'" using IH b by blast
    ultimately show ?thesis by (rule same_entry_trans)
  qed
  show ?case using IH q rf other by auto
qed

lemma orders_scratch_Inr:
  assumes "orders_scratch x t x_test t_test cs K ks tbl = Inr tbl'"
    and "shaped K c tbl" and "\<forall>k \<in> set ks. k < c" and "distinct ks"
  shows "shaped K c tbl'
    \<and> (\<forall>k \<in> set ks. \<forall>f < K. \<exists>q. fit_fold (design x k) (design x_test k) t t_test cs f = Inr q
           \<and> recorded tbl' f k q)
    \<and> (\<forall>f k'. k' \<notin> set ks \<longrightarrow> same_entry tbl tbl' f k')"
  using assms
proof (induction ks arbitrary: tbl)
  case Nil
  then show ?case by (simp add: same_entry_refl)
next
  case (Cons k ks)
  from Cons.prems(1) obtain t1 where
    t1: "folds_loop (design x k) (design x_test k) t t_test cs k [0..<K] tbl = Inr t1"
    and rest: "orders_scratch x t x_test t_test cs K ks t1 = Inr tbl'"
    by (auto split: sum.splits)
  from Cons.prems have kc: "k < c" and ks: "\<forall>k \<in> set ks. k < c" and d: "distinct ks"
    and nk: "k \<notin> set ks" by auto
  have "\<forall>f \<in> set [0..<K]. f < K" "distinct [0..<K]" by auto
  note F = folds_loop_Inr [OF t1 Cons.prems(2) kc this]
  then have s1: "shaped K c t1" by blast
  note IH = Cons.IH [OF rest s1 ks d]
  have here: "\<exists>q. fit_fold (design x k) (design x_test k) t t_test cs f = Inr q \<and> recorded tbl' f k q"
    if "f < K" for f
  proof -
    from that have "f \<in> set [0..<K]" by simp
    with F obtain q where q: "fit_fold (design x k) (design x_test k) t t_test cs f = Inr q"
      and r: "recorded t1 f k q" by blast
    have "same_entry t1 tbl' f k" using IH nk by blast
    then show ?thesis using q r recorded_same by blast
  qed
  have other: "same_entry tbl tbl' f k'" if "k' \<notin> set (k # ks)" for f k'
  proof -
    from that have "k' \<noteq> k" "k' \<notin> set ks" by auto
    then have "same_entry tbl t1 f k'" "same_entry t1 tbl' f k'" using F IH by blast+
    then show ?thesis by (rule same_entry_trans)
  qed
  show ?case using IH here other by auto
qed

section \<open>The design matrices\<close>

lemma design_0: "design x 0 = ones_like x"
  by (simp add: design_def ones_like_def power_column_def)

lemma design_Suc: "design x (Suc k) = design x k @ [power_column x (Suc k)]"
  by (simp add: design_def power_column_def)

lemma design_nth: "j \<le> k \<Longrightarrow> design x k ! j = map (\<lambda>v. v ^ j) x"
proof -
  assume "j \<le> k"
  then have "j < length [0..<k + 1]" by simp
  then have "map (\<lambda>j. map (\<lambda>v. v ^ j) x) [0..<k + 1] ! j =
      (\<lambda>j. map (\<lambda>v. v ^ j) x) ([0..<k + 1] ! j)"
    by (rule nth_map)
  also have "[0..<k + 1] ! j = j" using \<open>j \<le> k\<close> by (simp del: upt_Suc)
  finally show ?thesis by (simp add: design_def)
qed

lemma design_entry:
  assumes "j \<le> k" and "r < length x"
  shows "design x k ! j ! r = (x ! r) ^ j"
  using assms by (simp add: design_nth)

lemma orders_loop_scratch:
  "orders_loop x t x_test t_test cs K [k0..<k0 + n] (design x k0) (design x_test k0) tbl =
   orders_scratch x t x_test t_test cs K [k0..<k0 + n] tbl"
proof (induction n arbitrary: k0 tbl)
  case 0
  then show ?case by simp
next
  case (Suc n)
  have u: "[k0..<k0 + Suc n] = k0 # [Suc k0..<Suc k0 + n]"
    by (simp add: upt_conv_Cons)
  have d: "design x k0 @ [power_column x (k0 + 1)] = design x (Suc k0)"
    "design x_test k0 @ [power_column x_test (k0 + 1)] = design x_test (Suc k0)"
    by (simp_all add: design_Suc)
  show ?case
    unfolding u by (simp only: orders_loop.simps orders_scratch.simps d Suc.IH cong: sum.case_cong)
qed

lemma evaluate_eq_scratch:
  "evaluate x t x_test t_test max_order K = evaluate_scratch x t x_test t_test max_order K"
  unfolding evaluate_def evaluate_scratch_def
  using orders_loop_scratch [of x t x_test t_test _ "nat K" 0 "max_order + 1"]
  by (simp add: design_0 split: sum.splits)

text \<open>
  Claim C5. At order \<open>k\<close> the sweep fits with the matrices whose columns are
  \<open>1, x, \<dots>, x\<^sup>k\<close>, for the training and for the test inputs. The matrix of order 0
  is the column of ones; the matrix of order \<open>k + 1\<close> is the one of order \<open>k\<close> with
  the single column \<^verbatim>\<open>x**(k+1)\<close> appended; the matrix of order \<open>k\<close> has \<open>k + 1\<close>
  columns, each with one entry for every input, and the entry of column \<open>j\<close> in row
  \<open>r\<close> is the \<open>j\<close>-th power of the \<open>r\<close>-th input. The loop that carries the two
  matrices from one order to the next computes what the loop that rebuilds them at every
  order computes, from any order on and for the whole call.
\<close>

theorem design_incremental:
  "design x 0 = ones_like x
   \<and> design x (k + 1) = design x k @ [power_column x (k + 1)]
   \<and> length (design x k) = k + 1
   \<and> (\<forall>j \<le> k. length (design x k ! j) = length x
         \<and> (\<forall>r < length x. design x k ! j ! r = (x ! r) ^ j))
   \<and> orders_loop x t x_test t_test cs K' [k0..<k0 + n] (design x k0) (design x_test k0) tbl =
     orders_scratch x t x_test t_test cs K' [k0..<k0 + n] tbl
   \<and> evaluate x t x_test t_test max_order K = evaluate_scratch x t x_test t_test max_order K"
proof -
  have "length (design x k) = k + 1" by (simp add: design_def)
  moreover have "\<forall>j \<le> k. length (design x k ! j) = length x
         \<and> (\<forall>r < length x. design x k ! j ! r = (x ! r) ^ j)"
    by (simp add: design_nth)
  ultimately show ?thesis
    using design_0 [of x] design_Suc [of x k]
      orders_loop_scratch [of x t x_test t_test cs K' k0 n tbl]
      evaluate_eq_scratch [of x t x_test t_test max_order K]
    by simp
qed

theorem design_incremental_witness:
  "(2::nat) \<le> 2 \<and> (1::nat) < length [2, 3 :: real]
   \<and> length (design [2, 3] 2 ! 2) = length [2, 3 :: real]
   \<and> design [2, 3] 2 ! 2 ! 1 = ([2, 3 :: real] ! 1) ^ 2
   \<and> design [2, 3] 2 = [[1, 1], [2, 3], [4, 9 :: real]]"
proof -
  have h: "(2::nat) \<le> 2" "(1::nat) < length [2, 3 :: real]" by simp_all
  from design_incremental [where x = "[2, 3]" and k = 2]
  have "\<forall>j \<le> 2. length (design [2, 3] 2 ! j) = length [2, 3 :: real]
         \<and> (\<forall>r < length [2, 3 :: real]. design [2, 3] 2 ! j ! r = ([2, 3 :: real] ! r) ^ j)"
    by blast
  with h have "length (design [2, 3] 2 ! 2) = length [2, 3 :: real]
      \<and> design [2, 3] 2 ! 2 ! 1 = ([2, 3 :: real] ! 1) ^ 2"
    by blast
  moreover have "design [2, 3] 2 = [[1, 1], [2, 3], [4, 9 :: real]]"
    by code_simp
  ultimately show ?thesis using h by blast
qed

lemma zeros_shaped:
  "shaped r c \<lparr>cv_loss = zeros r c, ind_loss = zeros r c, train_loss = zeros r c\<rparr>"
  by (simp add: shaped_def zeros_def)

lemma evaluate_cells:
  assumes "evaluate x t x_test t_test max_order K = Inr tbl"
  shows "\<exists>sizes. fold_sizes (length x) K = Inr sizes \<and> shaped (nat K) (max_order + 1) tbl \<and>
     (\<forall>k \<le> max_order. \<forall>f < nat K.
        \<exists>q. fit_fold (design x k) (design x_test k) t t_test (c_sizes sizes) f = Inr q
          \<and> recorded tbl f k q)"
proof -
  from assms obtain sizes where s: "fold_sizes (length x) K = Inr sizes"
    and o: "orders_scratch x t x_test t_test (c_sizes sizes) (nat K) [0..<max_order + 1]
            \<lparr>cv_loss = zeros (nat K) (max_order + 1),
             ind_loss = zeros (nat K) (max_order + 1),
             train_loss = zeros (nat K) (max_order + 1)\<rparr> = Inr tbl"
    unfolding evaluate_eq_scratch evaluate_scratch_def by (auto split: sum.splits)
  have "\<forall>k \<in> set [0..<max_order + 1]. k < max_order + 1" "distinct [0..<max_order + 1]"
    by auto
  note R = orders_scratch_Inr [OF o zeros_shaped this]
  have "\<exists>q. fit_fold (design x k) (design x_test k) t t_test (c_sizes sizes) f = Inr q
          \<and> recorded tbl f k q" if "k \<le> max_order" "f < nat K" for k f
  proof -
    from that have "k \<in> set [0..<max_order + 1]" by auto
    with R that(2) show ?thesis by blast
  qed
  with s R show ?thesis by blast
qed

section \<open>The solver\<close>

lemma dot_Nil [simp]: "dot [] ys = 0" "dot xs [] = 0"
  by (simp_all add: dot_def)

lemma dot_Cons [simp]: "dot (a # as) (b # bs) = a * b + dot as bs"
  by (simp add: dot_def)

lemma dot_eliminated:
  assumes "length rs = length ws" "length ps = length ws"
  shows "dot (map2 (\<lambda>c d. c - m * d) rs ps) ws = dot rs ws - m * dot ps ws"
  using assms
proof (induction ws arbitrary: rs ps)
  case Nil
  then show ?case by simp
next
  case (Cons w ws)
  then obtain r rs' p ps' where rs: "rs = r # rs'" and ps: "ps = p # ps'"
    by (cases rs; cases ps) auto
  with Cons.prems have "length rs' = length ws" "length ps' = length ws" by auto
  from Cons.IH [OF this] show ?case unfolding rs ps by (simp add: algebra_simps)
qed

lemma pivot_split_Some:
  assumes "pivot_split es = Some (p, rest)"
  shows "set es = insert p (set rest) \<and> fst p \<noteq> [] \<and> hd (fst p) \<noteq> 0
    \<and> length es = Suc (length rest)"
  using assms
proof (induction es arbitrary: p rest rule: pivot_split.induct)
  case 1
  then show ?case by simp
next
  case (2 b es)
  then show ?case by simp
next
  case (3 a as b es)
  show ?case
  proof (cases "a = 0")
    case False
    with "3.prems" show ?thesis by auto
  next
    case True
    with "3.prems" obtain rest' where ps: "pivot_split es = Some (p, rest')"
      and r: "rest = (a # as, b) # rest'"
      by (auto split: option.splits)
    from True have "\<not> a \<noteq> 0" by simp
    from "3.IH" [OF this ps] show ?thesis unfolding r by auto
  qed
qed

lemma pivot_split_None:
  assumes "\<forall>e \<in> set es. fst e = [] \<or> hd (fst e) = 0"
  shows "pivot_split es = None"
  using assms by (induction es rule: pivot_split.induct) auto

lemma gauss_length: "gauss n es = Some ws \<Longrightarrow> length ws = n"
  by (induction n arbitrary: es ws) (auto split: option.splits)

text \<open>
  Elimination is sound on a square system: what it returns satisfies every equation.
\<close>

lemma gauss_sound:
  assumes "gauss n es = Some ws" and "\<forall>e \<in> set es. length (fst e) = n" and "length es = n"
  shows "\<forall>e \<in> set es. dot (fst e) ws = snd e"
  using assms
proof (induction n arbitrary: es ws)
  case 0
  then show ?case by simp
next
  case (Suc n)
  from Suc.prems(1) obtain p rest ws' where ps: "pivot_split es = Some (p, rest)"
    and g: "gauss n (map (eliminate p) rest) = Some ws'"
    and ws: "ws = (snd p - dot (tl (fst p)) ws') / hd (fst p) # ws'"
    by (auto split: option.splits)
  from pivot_split_Some [OF ps] have es: "set es = insert p (set rest)"
    and pne: "fst p \<noteq> []" and p0: "hd (fst p) \<noteq> 0"
    and les: "length es = Suc (length rest)" by blast+
  obtain a as pb where p: "p = (a # as, pb)" using pne by (cases p; cases "fst p") auto
  have a0: "a \<noteq> 0" using p0 p by simp
  have las: "length as = n" using Suc.prems(2) es p by auto
  have lw: "length ws' = n" using g by (rule gauss_length)
  have len: "\<forall>e \<in> set (map (eliminate p) rest). length (fst e) = n"
  proof
    fix e assume "e \<in> set (map (eliminate p) rest)"
    then obtain r where r: "r \<in> set rest" and e: "e = eliminate p r" by auto
    then have "length (fst r) = Suc n" using Suc.prems(2) es by auto
    then show "length (fst e) = n" unfolding e eliminate_def p using las by (simp add: Let_def)
  qed
  have "length (map (eliminate p) rest) = n" using les Suc.prems(3) by simp
  note IH = Suc.IH [OF g len this]
  let ?w0 = "(pb - dot as ws') / a"
  have wsp: "ws = ?w0 # ws'" using ws p by simp
  have piv: "dot (fst p) ws = snd p" unfolding wsp p using a0 by simp
  have oth: "dot (fst r) ws = snd r" if r: "r \<in> set rest" for r
  proof -
    have lr: "length (fst r) = Suc n" using Suc.prems(2) es r by auto
    then obtain c cs rb where rr: "r = (c # cs, rb)" by (cases r; cases "fst r") auto
    have lcs: "length cs = n" using lr rr by simp
    have "dot (fst (eliminate p r)) ws' = snd (eliminate p r)" using IH r by simp
    then have "dot (map2 (\<lambda>u d. u - c / a * d) cs as) ws' = rb - c / a * pb"
      unfolding eliminate_def p rr by (simp add: Let_def)
    then have "dot cs ws' - c / a * dot as ws' = rb - c / a * pb"
      using dot_eliminated [of cs ws' as "c / a"] lcs las lw by simp
    then have "dot cs ws' = rb - c / a * (pb - dot as ws')" by (simp add: algebra_simps)
    then show ?thesis unfolding wsp rr using a0 by (simp add: field_simps)
  qed
  show ?case using es piv oth by auto
qed

lemma solve_length: "solve A b = Some w \<Longrightarrow> length w = length A"
  unfolding solve_def by (rule gauss_length)

lemma solve_sound:
  assumes "solve A b = Some w" and "length b = length A"
    and "\<forall>row \<in> set A. length row = length A" and "i < length A"
  shows "dot (A ! i) w = b ! i"
proof -
  have "\<forall>e \<in> set (zip A b). length (fst e) = length A"
    using assms(3) by (auto dest: set_zip_leftD)
  moreover have "length (zip A b) = length A" using assms(2) by simp
  ultimately have "\<forall>e \<in> set (zip A b). dot (fst e) w = snd e"
    using assms(1) unfolding solve_def by (intro gauss_sound)
  moreover have "(A ! i, b ! i) \<in> set (zip A b)"
    using assms(2,4) by (auto simp: set_zip)
  ultimately show ?thesis by fastforce
qed

lemma solve_no_rows:
  assumes "X \<noteq> []" and "\<forall>c \<in> set X. c = []"
  shows "solve (dot_TM X) rhs = None"
proof -
  obtain n where n: "length X = Suc n" using assms(1) by (cases X) auto
  have "\<forall>e \<in> set (zip (dot_TM X) rhs). fst e = [] \<or> hd (fst e) = 0"
  proof
    fix e assume "e \<in> set (zip (dot_TM X) rhs)"
    then have "fst e \<in> set (dot_TM X)" by (metis prod.collapse set_zip_leftD)
    then obtain ci where "ci \<in> set X" and e: "fst e = map (\<lambda>cj. dot ci cj) X"
      by (auto simp: dot_TM_def)
    then have "ci = []" using assms(2) by simp
    then show "fst e = [] \<or> hd (fst e) = 0" unfolding e using assms(1) by (cases X) simp_all
  qed
  then have "pivot_split (zip (dot_TM X) rhs) = None" by (rule pivot_split_None)
  then show ?thesis unfolding solve_def by (simp add: dot_TM_def n)
qed

section \<open>The fit of one fold\<close>

lemma np_delete_nths: "np_delete xs obj = nths xs {i. int i \<notin> set obj}"
  by (simp add: np_delete_def nths_def case_prod_unfold)

lemma np_delete_map: "np_delete (map g xs) obj = map g (np_delete xs obj)"
  by (simp add: np_delete_nths nths_map)

lemma length_np_delete:
  "length xs = length ys \<Longrightarrow> length (np_delete xs obj) = length (np_delete ys obj)"
  by (simp add: np_delete_nths length_nths)

lemma py_slice_map: "py_slice lo hi (map g xs) = map g (py_slice lo hi xs)"
  by (simp add: py_slice_def Let_def take_map drop_map)

lemma length_py_slice:
  "length xs = length ys \<Longrightarrow> length (py_slice lo hi xs) = length (py_slice lo hi ys)"
  by (simp add: py_slice_def Let_def)

lemma length_design [simp]: "length (design x k) = k + 1"
  by (simp add: design_def)

lemma design_columns: "c \<in> set (design x k) \<Longrightarrow> length c = length x"
  by (auto simp: design_def power_column_def)

lemma nrows_design [simp]: "nrows (design x k) = length x"
proof -
  have "design x k = map (\<lambda>v. v ^ 0) x # map (\<lambda>j. map (\<lambda>v. v ^ j) x) [1..<k + 1]"
    by (simp add: design_def upt_conv_Cons del: upt_Suc)
  then show ?thesis by (simp add: nrows_def)
qed

lemma design_np_delete: "map (\<lambda>c. np_delete c obj) (design x k) = design (np_delete x obj) k"
  by (simp add: design_def power_column_def np_delete_map)

lemma design_py_slice: "map (py_slice lo hi) (design x k) = design (py_slice lo hi x) k"
  by (simp add: design_def power_column_def py_slice_map)

lemma length_predict [simp]: "length (predict X w) = nrows X"
  by (simp add: predict_def)

lemma dot_Mv_predict: "length w = length X \<Longrightarrow> dot_Mv X w = Inr (predict X w)"
  by (simp add: dot_Mv_def predict_def)

lemma np_sub_same: "length p = length q \<Longrightarrow> np_sub p q = Inr (map2 (-) p q)"
  by (simp add: np_sub_def)

lemma normal_solve_length: "normal_solve X t = Some w \<Longrightarrow> length w = length X"
  unfolding normal_solve_def using solve_length by (fastforce simp: dot_TM_def)

lemma dot_TM_rows: "row \<in> set (dot_TM X) \<Longrightarrow> length row = length X"
  by (auto simp: dot_TM_def)

lemma normal_solve_sound:
  assumes "normal_solve X t = Some w" and "i < length X"
  shows "dot (dot_TM X ! i) w = dot (X ! i) t"
proof -
  have s: "solve (dot_TM X) (map (\<lambda>c. dot c t) X) = Some w"
    using assms(1) by (simp add: normal_solve_def)
  have l: "length (dot_TM X) = length X" by (simp add: dot_TM_def)
  have "dot (dot_TM X ! i) w = map (\<lambda>c. dot c t) X ! i"
    using s
  proof (rule solve_sound)
    show "length (map (\<lambda>c. dot c t) X) = length (dot_TM X)" by (simp add: l)
    show "\<forall>row \<in> set (dot_TM X). length row = length (dot_TM X)"
      using dot_TM_rows l by auto
    show "i < length (dot_TM X)" using assms(2) l by simp
  qed
  then show ?thesis using assms(2) by simp
qed

text \<open>
  With paired arrays of equal lengths no product and no difference can fail: a pair of
  an order and a fold either stops at the solver or yields its three losses.
\<close>

lemma fit_rows_design:
  assumes "length t = length x" and "length t_test = length x_test"
  shows "fit_rows (design x k) (design x_test k) t t_test lo hi =
    (case normal_solve (design (np_delete x (arange lo hi)) k) (np_delete t (arange lo hi)) of
       None \<Rightarrow> Inl LinAlgError
     | Some w \<Rightarrow> Inr \<lparr>coefficients = w,
         cv = mean_sq (map2 (-) (predict (design (py_slice lo hi x) k) w) (py_slice lo hi t)),
         ind = mean_sq (map2 (-) (predict (design x_test k) w) t_test),
         train = mean_sq (map2 (-) (predict (design (np_delete x (arange lo hi)) k) w)
                   (np_delete t (arange lo hi)))\<rparr>)"
proof -
  let ?obj = "arange lo hi"
  let ?xtr = "np_delete x ?obj" and ?ttr = "np_delete t ?obj"
  let ?xf = "py_slice lo hi x" and ?tf = "py_slice lo hi t"
  have l1: "length ?ttr = length ?xtr" using assms(1) by (rule length_np_delete)
  have l2: "length ?tf = length ?xf" using assms(1) by (rule length_py_slice)
  have tv: "dot_Tv (design ?xtr k) ?ttr = Inr (map (\<lambda>c. dot c ?ttr) (design ?xtr k))"
    using l1 by (simp add: dot_Tv_def)
  show ?thesis
  proof (cases "normal_solve (design ?xtr k) ?ttr")
    case None
    then have s: "solve (dot_TM (design ?xtr k)) (map (\<lambda>c. dot c ?ttr) (design ?xtr k)) = None"
      by (simp add: normal_solve_def)
    show ?thesis
      by (simp only: fit_rows_def Let_def design_np_delete design_py_slice tv None s
          sum.case option.case)
  next
    case (Some w)
    then have lw: "length w = k + 1" using normal_solve_length by fastforce
    have s: "solve (dot_TM (design ?xtr k)) (map (\<lambda>c. dot c ?ttr) (design ?xtr k)) = Some w"
      using Some by (simp add: normal_solve_def)
    have a: "dot_Mv (design ?xf k) w = Inr (predict (design ?xf k) w)"
      "dot_Mv (design x_test k) w = Inr (predict (design x_test k) w)"
      "dot_Mv (design ?xtr k) w = Inr (predict (design ?xtr k) w)"
      using lw by (simp_all add: dot_Mv_predict)
    have b: "np_sub (predict (design ?xf k) w) ?tf = Inr (map2 (-) (predict (design ?xf k) w) ?tf)"
      "np_sub (predict (design x_test k) w) t_test =
         Inr (map2 (-) (predict (design x_test k) w) t_test)"
      "np_sub (predict (design ?xtr k) w) ?ttr = Inr (map2 (-) (predict (design ?xtr k) w) ?ttr)"
      using l1 l2 assms(2) by (simp_all add: np_sub_same)
    show ?thesis
      by (simp only: fit_rows_def Let_def design_np_delete design_py_slice tv Some s a b
          sum.case option.case)
  qed
qed

lemma nths_cong_index:
  assumes "\<And>i. i < length xs \<Longrightarrow> i \<in> A \<longleftrightarrow> i \<in> B"
  shows "nths xs A = nths xs B"
proof -
  have "filter (\<lambda>p. snd p \<in> A) (zip xs [0..<length xs]) =
        filter (\<lambda>p. snd p \<in> B) (zip xs [0..<length xs])"
  proof (rule filter_cong [OF refl])
    fix p assume "p \<in> set (zip xs [0..<length xs])"
    then have "snd p \<in> set [0..<length xs]" by (metis prod.collapse set_zip_rightD)
    then show "(snd p \<in> A) = (snd p \<in> B)" using assms by simp
  qed
  then show ?thesis by (simp add: nths_def)
qed

lemma np_delete_training:
  "np_delete xs (arange (cs ! f) (cs ! (f + 1))) = training_rows cs f xs"
proof -
  have "{i. int i \<notin> set (arange (cs ! f) (cs ! (f + 1)))} = - held_out cs f"
    by (auto simp: held_out_def arange_def)
  then show ?thesis by (simp add: np_delete_nths training_rows_def)
qed

lemma py_slice_nths:
  assumes "0 \<le> lo" and "0 \<le> hi"
  shows "py_slice lo hi xs = nths xs {i. lo \<le> int i \<and> int i < hi}"
proof -
  let ?n = "length xs"
  let ?l = "min ?n (nat lo)" and ?h = "min ?n (nat hi)"
  have "py_slice lo hi xs = take (?h - ?l) (drop ?l xs)"
    using assms by (simp add: py_slice_def slice_bound_def Let_def)
  also have "\<dots> = nths (drop ?l xs) {..<?h - ?l}" by simp
  also have "\<dots> = nths xs ((+) ?l ` {..<?h - ?l})" by (rule nths_drop)
  also have "\<dots> = nths xs {i. lo \<le> int i \<and> int i < hi}"
  proof (rule nths_cong_index)
    fix i assume i: "i < length xs"
    have "i \<in> (+) ?l ` {..<?h - ?l} \<longleftrightarrow> ?l \<le> i \<and> i < ?h"
    proof
      assume "i \<in> (+) ?l ` {..<?h - ?l}"
      then show "?l \<le> i \<and> i < ?h" by auto
    next
      assume a: "?l \<le> i \<and> i < ?h"
      then have "i = ?l + (i - ?l)" "i - ?l < ?h - ?l" by auto
      then show "i \<in> (+) ?l ` {..<?h - ?l}" by blast
    qed
    also have "\<dots> \<longleftrightarrow> lo \<le> int i \<and> int i < hi" using i assms by auto
    finally show "i \<in> (+) ?l ` {..<?h - ?l} \<longleftrightarrow> i \<in> {i. lo \<le> int i \<and> int i < hi}" by simp
  qed
  finally show ?thesis .
qed

lemma py_slice_held_out:
  assumes "0 \<le> cs ! f" and "0 \<le> cs ! (f + 1)"
  shows "py_slice (cs ! f) (cs ! (f + 1)) xs = held_out_rows cs f xs"
  unfolding held_out_rows_def held_out_def using assms by (rule py_slice_nths)

lemma design_training: "map (training_rows cs f) (design x k) = design (training_rows cs f x) k"
  by (simp add: design_def power_column_def training_rows_def nths_map)

lemma design_held_out: "map (held_out_rows cs f) (design x k) = design (held_out_rows cs f x) k"
  by (simp add: design_def power_column_def held_out_rows_def nths_map)

lemma evaluate_fit:
  assumes "evaluate x t x_test t_test max_order K = Inr tbl"
    and "length t = length x" and "length t_test = length x_test"
    and "k \<le> max_order" and "f < nat K"
  shows "\<exists>sizes w. fold_sizes (length x) K = Inr sizes
    \<and> normal_solve (design (training_rows (c_sizes sizes) f x) k)
         (training_rows (c_sizes sizes) f t) = Some w
    \<and> train_loss tbl ! f ! k =
        mean_sq (map2 (-) (predict (design (training_rows (c_sizes sizes) f x) k) w)
          (training_rows (c_sizes sizes) f t))
    \<and> cv_loss tbl ! f ! k =
        mean_sq (map2 (-) (predict (design (held_out_rows (c_sizes sizes) f x) k) w)
          (held_out_rows (c_sizes sizes) f t))
    \<and> ind_loss tbl ! f ! k = mean_sq (map2 (-) (predict (design x_test k) w) t_test)"
proof -
  from evaluate_cells [OF assms(1)] assms(4,5) obtain sizes q
    where s: "fold_sizes (length x) K = Inr sizes"
      and q: "fit_fold (design x k) (design x_test k) t t_test (c_sizes sizes) f = Inr q"
      and r: "recorded tbl f k q" by blast
  let ?cs = "c_sizes sizes"
  note nn = c_sizes_nonneg [OF s assms(5)]
  have tr: "np_delete ys (arange (?cs ! f) (?cs ! (f + 1))) = training_rows ?cs f ys" for ys :: "real list"
    by (rule np_delete_training)
  have ho: "py_slice (?cs ! f) (?cs ! (f + 1)) ys = held_out_rows ?cs f ys" for ys :: "real list"
    using nn by (rule py_slice_held_out)
  note F = q [unfolded fit_fold_def fit_rows_design [OF assms(2,3)] tr ho]
  then obtain w where w: "normal_solve (design (training_rows ?cs f x) k) (training_rows ?cs f t) = Some w"
    by (auto split: option.splits)
  from F w have "q = \<lparr>coefficients = w,
         cv = mean_sq (map2 (-) (predict (design (held_out_rows ?cs f x) k) w) (held_out_rows ?cs f t)),
         ind = mean_sq (map2 (-) (predict (design x_test k) w) t_test),
         train = mean_sq (map2 (-) (predict (design (training_rows ?cs f x) k) w)
                   (training_rows ?cs f t))\<rparr>" by simp
  with r have "train_loss tbl ! f ! k =
        mean_sq (map2 (-) (predict (design (training_rows ?cs f x) k) w) (training_rows ?cs f t))"
    "cv_loss tbl ! f ! k =
        mean_sq (map2 (-) (predict (design (held_out_rows ?cs f x) k) w) (held_out_rows ?cs f t))"
    "ind_loss tbl ! f ! k = mean_sq (map2 (-) (predict (design x_test k) w) t_test)"
    by (simp_all add: recorded_def)
  with s w show ?thesis by blast
qed

text \<open>
  Claim C1. When the call returns a table for paired arrays of equal lengths, then for
  every order \<open>k\<close> up to \<open>max_order\<close> and every fold \<open>f\<close> below \<open>K\<close> there is a
  coefficient vector \<open>w\<close> with \<open>k + 1\<close> entries that solves the normal equations of the
  training subset, the rows outside the range of fold \<open>f\<close>, and the three entries of the
  table at \<open>(f, k)\<close> are the means of the squared row-wise differences between the
  prediction with this \<open>w\<close> and the response: on the training subset, on the held-out
  rows and on the whole test set. Numbers are real numbers here; the mean over no row is
  NaN.
\<close>

theorem fit_solves_normal_equations:
  assumes "evaluate x t x_test t_test max_order K = Inr tbl"
    and "length t = length x" and "length t_test = length x_test"
    and "k \<le> max_order" and "f < nat K"
  shows "\<exists>sizes w. fold_sizes (length x) K = Inr sizes \<and> length w = k + 1 \<and>
    (let cs = c_sizes sizes;
         X_train = map (training_rows cs f) (design x k); t_train = training_rows cs f t;
         X_fold = map (held_out_rows cs f) (design x k); t_fold = held_out_rows cs f t;
         X_test = design x_test k
     in (\<forall>i < k + 1. dot (dot_TM X_train ! i) w = dot (X_train ! i) t_train) \<and>
        train_loss tbl ! f ! k = mean_sq (map2 (-) (predict X_train w) t_train) \<and>
        cv_loss tbl ! f ! k = mean_sq (map2 (-) (predict X_fold w) t_fold) \<and>
        ind_loss tbl ! f ! k = mean_sq (map2 (-) (predict X_test w) t_test))"
proof -
  from evaluate_fit [OF assms] obtain sizes w where s: "fold_sizes (length x) K = Inr sizes"
    and w: "normal_solve (design (training_rows (c_sizes sizes) f x) k)
         (training_rows (c_sizes sizes) f t) = Some w"
    and l: "train_loss tbl ! f ! k =
        mean_sq (map2 (-) (predict (design (training_rows (c_sizes sizes) f x) k) w)
          (training_rows (c_sizes sizes) f t))"
     "cv_loss tbl ! f ! k =
        mean_sq (map2 (-) (predict (design (held_out_rows (c_sizes sizes) f x) k) w)
          (held_out_rows (c_sizes sizes) f t))"
     "ind_loss tbl ! f ! k = mean_sq (map2 (-) (predict (design x_test k) w) t_test)"
    by blast
  have lw: "length w = k + 1" using normal_solve_length [OF w] by simp
  have ne: "\<forall>i < k + 1. dot (dot_TM (design (training_rows (c_sizes sizes) f x) k) ! i) w =
      dot (design (training_rows (c_sizes sizes) f x) k ! i) (training_rows (c_sizes sizes) f t)"
    using normal_solve_sound [OF w] by simp
  show ?thesis
    unfolding Let_def design_training design_held_out
    using s lw ne l by blast
qed

theorem fit_solves_normal_equations_witness:
  "evaluate [0, 1, 2, 3, 4, 5, 6, 7, 8, 9 :: real]
       [0, 1, 4, 9, 16, 25, 36, 49, 64, 81 :: real] [0, 1 :: real] [0, 1 :: real] 1 3 =
     Inr \<lparr>cv_loss = [[Num (9025 / 9), Num (3025 / 9)],
                       [Num (75625 / 81), Num (27225 / 961)],
                       [Num (7525 / 4), Num 1446]],
           ind_loss = [[Num (17489 / 18), Num (3809 / 18)],
                       [Num (156281 / 162), Num (203625 / 1922)],
                       [Num (1 / 4), Num 0]],
           train_loss = [[Num (6308 / 9), Num (308 / 9)],
                         [Num (57332 / 81), Num (5236 / 93)],
                         [Num (1 / 4), Num 0]]\<rparr>
   \<and> (\<exists>sizes w. fold_sizes (length [0, 1, 2, 3, 4, 5, 6, 7, 8, 9 :: real]) 3 = Inr sizes
        \<and> length w = (1::nat) + 1 \<and>
      (let cs = c_sizes sizes;
           X_train = map (training_rows cs (0::nat)) (design [0, 1, 2, 3, 4, 5, 6, 7, 8, 9 :: real] 1);
           t_train = training_rows cs 0 [0, 1, 4, 9, 16, 25, 36, 49, 64, 81 :: real];
           X_fold = map (held_out_rows cs 0) (design [0, 1, 2, 3, 4, 5, 6, 7, 8, 9 :: real] 1);
           t_fold = held_out_rows cs 0 [0, 1, 4, 9, 16, 25, 36, 49, 64, 81 :: real];
           X_test = design [0, 1 :: real] 1
       in (\<forall>i < (1::nat) + 1. dot (dot_TM X_train ! i) w = dot (X_train ! i) t_train) \<and>
          train_loss \<lparr>cv_loss = [[Num (9025 / 9), Num (3025 / 9)],
                       [Num (75625 / 81), Num (27225 / 961)],
                       [Num (7525 / 4), Num 1446]],
           ind_loss = [[Num (17489 / 18), Num (3809 / 18)],
                       [Num (156281 / 162), Num (203625 / 1922)],
                       [Num (1 / 4), Num 0]],
           train_loss = [[Num (6308 / 9), Num (308 / 9)],
                         [Num (57332 / 81), Num (5236 / 93)],
                         [Num (1 / 4), Num 0]]\<rparr> ! 0 ! 1 =
            mean_sq (map2 (-) (predict X_train w) t_train) \<and>
          cv_loss \<lparr>cv_loss = [[Num (9025 / 9), Num (3025 / 9)],
                       [Num (75625 / 81), Num (27225 / 961)],
                       [Num (7525 / 4), Num 1446]],
           ind_loss = [[Num (17489 / 18), Num (3809 / 18)],
                       [Num (156281 / 162), Num (203625 / 1922)],
                       [Num (1 / 4), Num 0]],
           train_loss = [[Num (6308 / 9), Num (308 / 9)],
                         [Num (57332 / 81), Num (5236 / 93)],
                         [Num (1 / 4), Num 0]]\<rparr> ! 0 ! 1 =
            mean_sq (map2 (-) (predict X_fold w) t_fold) \<and>
          ind_loss \<lparr>cv_loss = [[Num (9025 / 9), Num (3025 / 9)],
                       [Num (75625 / 81), Num (27225 / 961)],
                       [Num (7525 / 4), Num 1446]],
           ind_loss = [[Num (17489 / 18), Num (3809 / 18)],
                       [Num (156281 / 162), Num (203625 / 1922)],
                       [Num (1 / 4), Num 0]],
           train_loss = [[Num (6308 / 9), Num (308 / 9)],
                         [Num (57332 / 81), Num (5236 / 93)],
                         [Num (1 / 4), Num 0]]\<rparr> ! 0 ! 1 =
            mean_sq (map2 (-) (predict X_test w) [0, 1 :: real])))"
proof -
  have e: "evaluate [0, 1, 2, 3, 4, 5, 6, 7, 8, 9 :: real]
       [0, 1, 4, 9, 16, 25, 36, 49, 64, 81 :: real] [0, 1 :: real] [0, 1 :: real] 1 3 =
     Inr \<lparr>cv_loss = [[Num (9025 / 9), Num (3025 / 9)],
                       [Num (75625 / 81), Num (27225 / 961)],
                       [Num (7525 / 4), Num 1446]],
           ind_loss = [[Num (17489 / 18), Num (3809 / 18)],
                       [Num (156281 / 162), Num (203625 / 1922)],
                       [Num (1 / 4), Num 0]],
           train_loss = [[Num (6308 / 9), Num (308 / 9)],
                         [Num (57332 / 81), Num (5236 / 93)],
                         [Num (1 / 4), Num 0]]\<rparr>"
    by code_simp
  have h: "length [0, 1, 4, 9, 16, 25, 36, 49, 64, 81 :: real] = length [0, 1, 2, 3, 4, 5, 6, 7, 8, 9 :: real]"
    "length [0, 1 :: real] = length [0, 1 :: real]" "(1::nat) \<le> 1" "(0::nat) < nat 3"
    by simp_all
  from fit_solves_normal_equations [OF e h] have
    "(\<exists>sizes w. fold_sizes (length [0, 1, 2, 3, 4, 5, 6, 7, 8, 9 :: real]) 3 = Inr sizes
        \<and> length w = (1::nat) + 1 \<and>
      (let cs = c_sizes sizes;
           X_train = map (training_rows cs (0::nat)) (design [0, 1, 2, 3, 4, 5, 6, 7, 8, 9 :: real] 1);
           t_train = training_rows cs 0 [0, 1, 4, 9, 16, 25, 36, 49, 64, 81 :: real];
           X_fold = map (held_out_rows cs 0) (design [0, 1, 2, 3, 4, 5, 6, 7, 8, 9 :: real] 1);
           t_fold = held_out_rows cs 0 [0, 1, 4, 9, 16, 25, 36, 49, 64, 81 :: real];
           X_test = design [0, 1 :: real] 1
       in (\<forall>i < (1::nat) + 1. dot (dot_TM X_train ! i) w = dot (X_train ! i) t_train) \<and>
          train_loss \<lparr>cv_loss = [[Num (9025 / 9), Num (3025 / 9)],
                       [Num (75625 / 81), Num (27225 / 961)],
                       [Num (7525 / 4), Num 1446]],
           ind_loss = [[Num (17489 / 18), Num (3809 / 18)],
                       [Num (156281 / 162), Num (203625 / 1922)],
                       [Num (1 / 4), Num 0]],
           train_loss = [[Num (6308 / 9), Num (308 / 9)],
                         [Num (57332 / 81), Num (5236 / 93)],
                         [Num (1 / 4), Num 0]]\<rparr> ! 0 ! 1 =
            mean_sq (map2 (-) (predict X_train w) t_train) \<and>
          cv_loss \<lparr>cv_loss = [[Num (9025 / 9), Num (3025 / 9)],
                       [Num (75625 / 81), Num (27225 / 961)],
                       [Num (7525 / 4), Num 1446]],
           ind_loss = [[Num (17489 / 18), Num (3809 / 18)],
                       [Num (156281 / 162), Num (203625 / 1922)],
                       [Num (1 / 4), Num 0]],
           train_loss = [[Num (6308 / 9), Num (308 / 9)],
                         [Num (57332 / 81), Num (5236 / 93)],
                         [Num (1 / 4), Num 0]]\<rparr> ! 0 ! 1 =
            mean_sq (map2 (-) (predict X_fold w) t_fold) \<and>
          ind_loss \<lparr>cv_loss = [[Num (9025 / 9), Num (3025 / 9)],
                       [Num (75625 / 81), Num (27225 / 961)],
                       [Num (7525 / 4), Num 1446]],
           ind_loss = [[Num (17489 / 18), Num (3809 / 18)],
                       [Num (156281 / 162), Num (203625 / 1922)],
                       [Num (1 / 4), Num 0]],
           train_loss = [[Num (6308 / 9), Num (308 / 9)],
                         [Num (57332 / 81), Num (5236 / 93)],
                         [Num (1 / 4), Num 0]]\<rparr> ! 0 ! 1 =
            mean_sq (map2 (-) (predict X_test w) [0, 1 :: real])))" .
  with e show ?thesis ..
qed

section \<open>Training loss and model order\<close>

lemma dot_sum:
  assumes "length xs = length ys"
  shows "dot xs ys = (\<Sum>i<length xs. xs ! i * ys ! i)"
  using assms
proof (induction xs ys rule: list_induct2)
  case Nil
  then show ?case by simp
next
  case (Cons x xs y ys)
  have "(\<Sum>i<length (x # xs). (x # xs) ! i * (y # ys) ! i) =
        x * y + (\<Sum>i<length xs. xs ! i * ys ! i)"
    by (simp only: length_Cons sum.lessThan_Suc_shift nth_Cons_0 nth_Cons_Suc)
  with Cons.IH show ?case by simp
qed

lemma sum_list_squares:
  assumes "length p = length t"
  shows "sum_list (map (\<lambda>v. v ^ 2) (map2 (-) p t)) = (\<Sum>r<length t. (p ! r - t ! r) ^ 2)"
  using assms
proof (induction p t rule: list_induct2)
  case Nil
  then show ?case by simp
next
  case (Cons a p b t)
  have "(\<Sum>r<length (b # t). ((a # p) ! r - (b # t) ! r) ^ 2) =
        (a - b) ^ 2 + (\<Sum>r<length t. (p ! r - t ! r) ^ 2)"
    by (simp only: length_Cons sum.lessThan_Suc_shift nth_Cons_0 nth_Cons_Suc)
  with Cons.IH show ?case by simp
qed

text \<open>
  A vector that satisfies the normal equations has the least sum of squared residuals
  among all coefficient vectors.
\<close>

lemma least_squares_minimum:
  fixes A :: "nat \<Rightarrow> nat \<Rightarrow> real" and t w v :: "nat \<Rightarrow> real"
  assumes ne: "\<And>i. i < d \<Longrightarrow> (\<Sum>r<n. A i r * ((\<Sum>j<d. A j r * w j) - t r)) = 0"
  shows "(\<Sum>r<n. ((\<Sum>j<d. A j r * w j) - t r) ^ 2) \<le> (\<Sum>r<n. ((\<Sum>j<d. A j r * v j) - t r) ^ 2)"
proof -
  define e where "e r = (\<Sum>j<d. A j r * w j) - t r" for r
  define q where "q r = (\<Sum>j<d. A j r * (v j - w j))" for r
  have split: "(\<Sum>j<d. A j r * v j) - t r = e r + q r" for r
    unfolding e_def q_def by (simp add: algebra_simps sum_subtractf)
  have "(\<Sum>r<n. e r * q r) = (\<Sum>r<n. \<Sum>j<d. (v j - w j) * (A j r * e r))"
    unfolding q_def by (simp add: sum_distrib_left mult_ac)
  also have "\<dots> = (\<Sum>j<d. \<Sum>r<n. (v j - w j) * (A j r * e r))"
    by (rule sum.swap)
  also have "\<dots> = (\<Sum>j<d. (v j - w j) * (\<Sum>r<n. A j r * e r))"
    by (simp add: sum_distrib_left)
  also have "\<dots> = 0"
    using ne unfolding e_def by simp
  finally have cross: "(\<Sum>r<n. e r * q r) = 0" .
  have "(\<Sum>r<n. (e r + q r) ^ 2) = (\<Sum>r<n. (e r) ^ 2 + (q r) ^ 2 + 2 * (e r * q r))"
    by (rule sum.cong) (simp_all add: power2_sum)
  also have "\<dots> = (\<Sum>r<n. (e r) ^ 2) + (\<Sum>r<n. (q r) ^ 2) + 2 * (\<Sum>r<n. e r * q r)"
    by (simp add: sum.distrib sum_distrib_left)
  finally have "(\<Sum>r<n. (e r + q r) ^ 2) = (\<Sum>r<n. (e r) ^ 2) + (\<Sum>r<n. (q r) ^ 2)"
    using cross by simp
  moreover have "0 \<le> (\<Sum>r<n. (q r) ^ 2)" by (rule sum_nonneg) simp
  ultimately have "(\<Sum>r<n. (e r) ^ 2) \<le> (\<Sum>r<n. (e r + q r) ^ 2)" by simp
  then show ?thesis unfolding split unfolding e_def .
qed

lemma predict_design_nth:
  assumes "r < length x" and "length w = k + 1"
  shows "predict (design x k) w ! r = (\<Sum>j<k + 1. (x ! r) ^ j * w ! j)"
proof -
  have "predict (design x k) w ! r = dot (map (\<lambda>c. c ! r) (design x k)) w"
    using assms(1) by (simp add: predict_def)
  also have "\<dots> = (\<Sum>j<k + 1. map (\<lambda>c. c ! r) (design x k) ! j * w ! j)"
    using dot_sum [of "map (\<lambda>c. c ! r) (design x k)" w] assms(2) by simp
  also have "\<dots> = (\<Sum>j<k + 1. (x ! r) ^ j * w ! j)"
  proof (rule sum.cong [OF refl])
    fix j assume "j \<in> {..<k + 1}"
    then have j: "j \<le> k" by simp
    then have "map (\<lambda>c. c ! r) (design x k) ! j = design x k ! j ! r" by simp
    also have "\<dots> = (x ! r) ^ j" using j assms(1) by (rule design_entry)
    finally show "map (\<lambda>c. c ! r) (design x k) ! j * w ! j = (x ! r) ^ j * w ! j" by simp
  qed
  finally show ?thesis .
qed

lemma dot_design_columns:
  assumes "i \<le> k" and "j \<le> k"
  shows "dot (design x k ! i) (design x k ! j) = (\<Sum>r<length x. (x ! r) ^ i * (x ! r) ^ j)"
proof -
  have l: "length (design x k ! i) = length x" "length (design x k ! j) = length x"
    using assms by (simp_all add: design_nth power_column_def)
  have "dot (design x k ! i) (design x k ! j) =
      (\<Sum>r<length x. design x k ! i ! r * design x k ! j ! r)"
    using dot_sum [of "design x k ! i" "design x k ! j"] l by simp
  also have "\<dots> = (\<Sum>r<length x. (x ! r) ^ i * (x ! r) ^ j)"
    using assms by (intro sum.cong refl) (simp add: design_entry)
  finally show ?thesis .
qed

lemma dot_design_response:
  assumes "i \<le> k" and "length t = length x"
  shows "dot (design x k ! i) t = (\<Sum>r<length x. (x ! r) ^ i * t ! r)"
proof -
  have l: "length (design x k ! i) = length x"
    using assms by (simp add: design_nth power_column_def)
  have "dot (design x k ! i) t = (\<Sum>r<length x. design x k ! i ! r * t ! r)"
    using dot_sum [of "design x k ! i" t] l assms(2) by simp
  also have "\<dots> = (\<Sum>r<length x. (x ! r) ^ i * t ! r)"
    using assms by (intro sum.cong refl) (simp add: design_entry)
  finally show ?thesis .
qed

lemma normal_equations_sum:
  assumes "normal_solve (design x k) t = Some w" and "length t = length x" and "i < k + 1"
  shows "(\<Sum>r<length x. (x ! r) ^ i * ((\<Sum>j<k + 1. (x ! r) ^ j * w ! j) - t ! r)) = 0"
proof -
  let ?X = "design x k" and ?n = "length x"
  have lw: "length w = k + 1" using normal_solve_length [OF assms(1)] by simp
  have ik: "i \<le> k" using assms(3) by simp
  have "dot (dot_TM ?X ! i) w = dot (?X ! i) t"
    using assms(1) by (rule normal_solve_sound) (use assms(3) in simp)
  moreover have "dot_TM ?X ! i = map (\<lambda>cj. dot (?X ! i) cj) ?X"
    using assms(3) by (simp add: dot_TM_def)
  moreover have "dot (map (\<lambda>cj. dot (?X ! i) cj) ?X) w =
      (\<Sum>j<k + 1. dot (?X ! i) (?X ! j) * w ! j)"
    using dot_sum [of "map (\<lambda>cj. dot (?X ! i) cj) ?X" w] lw by simp
  moreover have "\<dots> = (\<Sum>j<k + 1. (\<Sum>r<?n. (x ! r) ^ i * (x ! r) ^ j) * w ! j)"
    using ik by (intro sum.cong refl) (simp add: dot_design_columns)
  moreover have "dot (?X ! i) t = (\<Sum>r<?n. (x ! r) ^ i * t ! r)"
    using ik assms(2) by (rule dot_design_response)
  ultimately have ne: "(\<Sum>j<k + 1. (\<Sum>r<?n. (x ! r) ^ i * (x ! r) ^ j) * w ! j) =
      (\<Sum>r<?n. (x ! r) ^ i * t ! r)" by simp
  have "(\<Sum>r<?n. (x ! r) ^ i * ((\<Sum>j<k + 1. (x ! r) ^ j * w ! j) - t ! r)) =
      (\<Sum>r<?n. \<Sum>j<k + 1. (x ! r) ^ i * (x ! r) ^ j * w ! j) - (\<Sum>r<?n. (x ! r) ^ i * t ! r)"
    by (simp only: right_diff_distrib sum_subtractf sum_distrib_left mult.assoc)
  also have "(\<Sum>r<?n. \<Sum>j<k + 1. (x ! r) ^ i * (x ! r) ^ j * w ! j) =
      (\<Sum>j<k + 1. \<Sum>r<?n. (x ! r) ^ i * (x ! r) ^ j * w ! j)"
    by (rule sum.swap)
  also have "\<dots> = (\<Sum>j<k + 1. (\<Sum>r<?n. (x ! r) ^ i * (x ! r) ^ j) * w ! j)"
    by (simp only: sum_distrib_right)
  finally show ?thesis using ne by (simp only: diff_self)
qed

lemma train_sse_mono:
  assumes "normal_solve (design x k) t = Some w"
    and "normal_solve (design x (k + 1)) t = Some w'"
    and "length t = length x"
  shows "(\<Sum>r<length x. ((\<Sum>j<k + 1 + 1. (x ! r) ^ j * w' ! j) - t ! r) ^ 2)
       \<le> (\<Sum>r<length x. ((\<Sum>j<k + 1. (x ! r) ^ j * w ! j) - t ! r) ^ 2)"
proof -
  have lw: "length w = k + 1" using normal_solve_length [OF assms(1)] by simp
  have "(\<Sum>r<length x. ((\<Sum>j<k + 1 + 1. (x ! r) ^ j * w' ! j) - t ! r) ^ 2)
       \<le> (\<Sum>r<length x. ((\<Sum>j<k + 1 + 1. (x ! r) ^ j * (w @ [0]) ! j) - t ! r) ^ 2)"
    using normal_equations_sum [OF assms(2,3)]
    by (rule least_squares_minimum [where A = "\<lambda>j r. (x ! r) ^ j" and w = "\<lambda>j. w' ! j"
          and v = "\<lambda>j. (w @ [0]) ! j" and t = "\<lambda>r. t ! r"])
  moreover have "(\<Sum>j<k + 1 + 1. (x ! r) ^ j * (w @ [0]) ! j) = (\<Sum>j<k + 1. (x ! r) ^ j * w ! j)"
    for r
  proof -
    have "(\<Sum>j<k + 1 + 1. (x ! r) ^ j * (w @ [0]) ! j) =
        (\<Sum>j<k + 1. (x ! r) ^ j * (w @ [0]) ! j) + (x ! r) ^ (k + 1) * (w @ [0]) ! (k + 1)"
      by simp
    also have "(w @ [0]) ! (k + 1) = 0" using lw by (simp add: nth_append)
    also have "(\<Sum>j<k + 1. (x ! r) ^ j * (w @ [0]) ! j) = (\<Sum>j<k + 1. (x ! r) ^ j * w ! j)"
      using lw by (intro sum.cong refl) (simp add: nth_append)
    finally show ?thesis by simp
  qed
  ultimately show ?thesis by simp
qed

lemma normal_solve_rows:
  assumes "normal_solve (design x k) t = Some w"
  shows "x \<noteq> []"
proof
  assume "x = []"
  then have "\<forall>c \<in> set (design x k). c = []" by (simp add: design_def power_column_def)
  moreover have "design x k \<noteq> []" by (simp add: design_def)
  ultimately have "solve (dot_TM (design x k)) (map (\<lambda>c. dot c t) (design x k)) = None"
    by (intro solve_no_rows)
  with assms show False by (simp add: normal_solve_def)
qed

lemma train_loss_value:
  assumes "length w = k + 1" and "length t = length x" and "x \<noteq> []"
  shows "mean_sq (map2 (-) (predict (design x k) w) t) =
    Num ((\<Sum>r<length x. ((\<Sum>j<k + 1. (x ! r) ^ j * w ! j) - t ! r) ^ 2) / real (length x))"
proof -
  let ?p = "predict (design x k) w"
  have lp: "length ?p = length t" using assms(2) by simp
  have ne: "map2 (-) ?p t \<noteq> []" using lp assms(2,3) by (cases ?p; cases t) auto
  have "sum_list (map (\<lambda>v. v ^ 2) (map2 (-) ?p t)) = (\<Sum>r<length t. (?p ! r - t ! r) ^ 2)"
    using lp by (rule sum_list_squares)
  also have "\<dots> = (\<Sum>r<length x. ((\<Sum>j<k + 1. (x ! r) ^ j * w ! j) - t ! r) ^ 2)"
    unfolding assms(2) using assms(1) by (intro sum.cong refl) (simp add: predict_design_nth)
  finally show ?thesis using ne lp assms(2) by (simp add: mean_sq_def)
qed

text \<open>
  The exact least-squares fit. With the exact solver, in a table that the call returns for
  paired arrays of equal lengths, the training loss of a fold at order \<open>k + 1\<close> is at
  most its training loss at order \<open>k\<close>: the fit of order \<open>k\<close> is a candidate of
  order \<open>k + 1\<close> with last coefficient zero. This is a fact of exact arithmetic only.
  In float64 the two losses are computed with rounding in the matrix products and in the
  solver, and where they are equal or nearly equal, as on a response that is a polynomial
  of the inputs without noise, the order of the rounded values is not determined by the
  lines of the cell.
\<close>

lemma exact_fit_training_loss_mono:
  assumes "evaluate x t x_test t_test max_order K = Inr tbl"
    and "length t = length x" and "length t_test = length x_test"
    and "k < max_order" and "f < nat K"
  shows "\<exists>a b. train_loss tbl ! f ! k = Num a \<and> train_loss tbl ! f ! (k + 1) = Num b \<and> b \<le> a"
proof -
  from assms(4) have k: "k \<le> max_order" and k1: "k + 1 \<le> max_order" by simp_all
  from evaluate_fit [OF assms(1,2,3) k assms(5)] obtain sizes w
    where s: "fold_sizes (length x) K = Inr sizes"
      and w: "normal_solve (design (training_rows (c_sizes sizes) f x) k)
               (training_rows (c_sizes sizes) f t) = Some w"
      and l: "train_loss tbl ! f ! k =
        mean_sq (map2 (-) (predict (design (training_rows (c_sizes sizes) f x) k) w)
          (training_rows (c_sizes sizes) f t))"
    by blast
  from evaluate_fit [OF assms(1,2,3) k1 assms(5)] s obtain w'
    where w': "normal_solve (design (training_rows (c_sizes sizes) f x) (k + 1))
               (training_rows (c_sizes sizes) f t) = Some w'"
      and l': "train_loss tbl ! f ! (k + 1) =
        mean_sq (map2 (-) (predict (design (training_rows (c_sizes sizes) f x) (k + 1)) w')
          (training_rows (c_sizes sizes) f t))"
    by auto
  let ?x = "training_rows (c_sizes sizes) f x" and ?t = "training_rows (c_sizes sizes) f t"
  have lt: "length ?t = length ?x"
    using assms(2) by (simp add: training_rows_def length_nths)
  have ne: "?x \<noteq> []" using w by (rule normal_solve_rows)
  have lw: "length w = k + 1" "length w' = k + 1 + 1"
    using normal_solve_length [OF w] normal_solve_length [OF w'] by simp_all
  let ?a = "(\<Sum>r<length ?x. ((\<Sum>j<k + 1. (?x ! r) ^ j * w ! j) - ?t ! r) ^ 2)"
  let ?b = "(\<Sum>r<length ?x. ((\<Sum>j<k + 1 + 1. (?x ! r) ^ j * w' ! j) - ?t ! r) ^ 2)"
  have a: "train_loss tbl ! f ! k = Num (?a / real (length ?x))"
    unfolding l using lw(1) lt ne by (rule train_loss_value)
  have b: "train_loss tbl ! f ! (k + 1) = Num (?b / real (length ?x))"
    unfolding l' using lw(2) lt ne by (rule train_loss_value)
  have "?b \<le> ?a" using w w' lt by (rule train_sse_mono)
  then have "?b / real (length ?x) \<le> ?a / real (length ?x)"
    by (rule divide_right_mono) simp
  with a b show ?thesis by blast
qed

section \<open>Calls that fail\<close>

lemma cell_with_solve: "cell_with solve = cell"
  by (intro ext) (simp add: cell_with_def cell_def)

lemma folds_loop_with_solve:
  "folds_loop_with solve X X_test t t_test cs k fs tbl = folds_loop X X_test t t_test cs k fs tbl"
  by (induction fs arbitrary: tbl) (simp_all add: cell_with_solve cong: sum.case_cong)

lemma orders_loop_with_solve:
  "orders_loop_with solve x t x_test t_test cs K ks X X_test tbl =
   orders_loop x t x_test t_test cs K ks X X_test tbl"
  by (induction ks arbitrary: X X_test tbl)
    (simp_all add: folds_loop_with_solve cong: sum.case_cong)

lemma evaluate_with_solve: "evaluate_with solve = evaluate"
  by (intro ext) (simp add: evaluate_with_def evaluate_def orders_loop_with_solve cong: sum.case_cong)

text \<open>What a pair of an order and a fold passes on when it raises nothing.\<close>

lemma cell_with_design:
  assumes "length t = length x" and "length t_test = length x_test"
    and "\<forall>A b w. S A b = Some w \<longrightarrow> length w = length A"
  shows "cell_with S (design x k) (design x_test k) t t_test cs k' f tbl = Inl LinAlgError
       \<and> normal_with S (design (np_delete x (arange (cs ! f) (cs ! (f + 1)))) k)
            (np_delete t (arange (cs ! f) (cs ! (f + 1)))) = None
     \<or> (\<exists>tbl'. cell_with S (design x k) (design x_test k) t t_test cs k' f tbl = Inr tbl')
       \<and> normal_with S (design (np_delete x (arange (cs ! f) (cs ! (f + 1)))) k)
            (np_delete t (arange (cs ! f) (cs ! (f + 1)))) \<noteq> None"
proof -
  define lo hi where "lo = cs ! f" and "hi = cs ! (f + 1)"
  let ?obj = "arange lo hi"
  let ?xtr = "np_delete x ?obj" and ?ttr = "np_delete t ?obj"
  let ?xf = "py_slice lo hi x" and ?tf = "py_slice lo hi t"
  have l1: "length ?ttr = length ?xtr" using assms(1) by (rule length_np_delete)
  have l2: "length ?tf = length ?xf" using assms(1) by (rule length_py_slice)
  have tv: "dot_Tv (design ?xtr k) ?ttr = Inr (map (\<lambda>c. dot c ?ttr) (design ?xtr k))"
    using l1 by (simp add: dot_Tv_def)
  show ?thesis
  proof (cases "S (dot_TM (design ?xtr k)) (map (\<lambda>c. dot c ?ttr) (design ?xtr k))")
    case None
    have "cell_with S (design x k) (design x_test k) t t_test cs k' f tbl = Inl LinAlgError"
      by (simp only: cell_with_def Let_def lo_def [symmetric] hi_def [symmetric]
          design_np_delete design_py_slice tv None sum.case option.case)
    with None show ?thesis unfolding normal_with_def lo_def hi_def by simp
  next
    case (Some w)
    with assms(3) have "length w = length (dot_TM (design ?xtr k))" by blast
    then have lw: "length w = k + 1" by (simp add: dot_TM_def)
    have a: "dot_Mv (design ?xf k) w = Inr (predict (design ?xf k) w)"
      "dot_Mv (design x_test k) w = Inr (predict (design x_test k) w)"
      "dot_Mv (design ?xtr k) w = Inr (predict (design ?xtr k) w)"
      using lw by (simp_all add: dot_Mv_predict)
    have b: "np_sub (predict (design ?xf k) w) ?tf = Inr (map2 (-) (predict (design ?xf k) w) ?tf)"
      "np_sub (predict (design x_test k) w) t_test =
         Inr (map2 (-) (predict (design x_test k) w) t_test)"
      "np_sub (predict (design ?xtr k) w) ?ttr = Inr (map2 (-) (predict (design ?xtr k) w) ?ttr)"
      using l1 l2 assms(2) by (simp_all add: np_sub_same)
    have "\<exists>tbl'. cell_with S (design x k) (design x_test k) t t_test cs k' f tbl = Inr tbl'"
      by (simp only: cell_with_def Let_def lo_def [symmetric] hi_def [symmetric]
          design_np_delete design_py_slice tv Some a b sum.case option.case) blast
    with Some show ?thesis unfolding normal_with_def lo_def hi_def by simp
  qed
qed


lemma folds_loop_with_design:
  assumes "length t = length x" and "length t_test = length x_test"
    and "\<forall>A b w. S A b = Some w \<longrightarrow> length w = length A"
  shows "(\<forall>e. folds_loop_with S (design x k) (design x_test k) t t_test cs k' fs tbl = Inl e
            \<longrightarrow> e = LinAlgError)
    \<and> (\<forall>tbl'. folds_loop_with S (design x k) (design x_test k) t t_test cs k' fs tbl = Inr tbl'
            \<longrightarrow> (\<forall>f \<in> set fs.
                  normal_with S (design (np_delete x (arange (cs ! f) (cs ! (f + 1)))) k)
                    (np_delete t (arange (cs ! f) (cs ! (f + 1)))) \<noteq> None))"
proof (induction fs arbitrary: tbl)
  case Nil
  show ?case by simp
next
  case (Cons f fs)
  from cell_with_design [where S = S and k = k and cs = cs and k' = k' and f = f and tbl = tbl,
      OF assms]
  consider (err) "cell_with S (design x k) (design x_test k) t t_test cs k' f tbl = Inl LinAlgError"
    | (ok) tbl1 where "cell_with S (design x k) (design x_test k) t t_test cs k' f tbl = Inr tbl1"
      "normal_with S (design (np_delete x (arange (cs ! f) (cs ! (f + 1)))) k)
            (np_delete t (arange (cs ! f) (cs ! (f + 1)))) \<noteq> None"
    by blast
  then show ?case
  proof cases
    case err
    then show ?thesis by simp
  next
    case ok
    from Cons.IH [of tbl1] ok show ?thesis by simp
  qed
qed

lemma orders_loop_with_design:
  assumes "length t = length x" and "length t_test = length x_test"
    and "\<forall>A b w. S A b = Some w \<longrightarrow> length w = length A"
  shows "(\<forall>e. orders_loop_with S x t x_test t_test cs K [k0..<k0 + n]
               (design x k0) (design x_test k0) tbl = Inl e \<longrightarrow> e = LinAlgError)
    \<and> (\<forall>tbl'. orders_loop_with S x t x_test t_test cs K [k0..<k0 + n]
               (design x k0) (design x_test k0) tbl = Inr tbl'
            \<longrightarrow> (\<forall>k f. k0 \<le> k \<and> k < k0 + n \<and> f < K \<longrightarrow>
                  normal_with S (design (np_delete x (arange (cs ! f) (cs ! (f + 1)))) k)
                    (np_delete t (arange (cs ! f) (cs ! (f + 1)))) \<noteq> None))"
proof (induction n arbitrary: k0 tbl)
  case 0
  show ?case by auto
next
  case (Suc n)
  have u: "[k0..<k0 + Suc n] = k0 # [Suc k0..<Suc k0 + n]"
    by (simp add: upt_conv_Cons)
  have d: "design x k0 @ [power_column x (k0 + 1)] = design x (Suc k0)"
    "design x_test k0 @ [power_column x_test (k0 + 1)] = design x_test (Suc k0)"
    by (simp_all add: design_Suc)
  note F = folds_loop_with_design [where S = S and k = k0 and cs = cs and k' = k0
      and fs = "[0..<K]" and tbl = tbl, OF assms]
  show ?case
  proof (cases "folds_loop_with S (design x k0) (design x_test k0) t t_test cs k0 [0..<K] tbl")
    case (Inl e)
    with F have "e = LinAlgError" by blast
    with Inl show ?thesis unfolding u by (simp only: orders_loop_with.simps sum.case) simp
  next
    case (Inr tbl1)
    with F have here: "\<forall>f < K.
        normal_with S (design (np_delete x (arange (cs ! f) (cs ! (f + 1)))) k0)
          (np_delete t (arange (cs ! f) (cs ! (f + 1)))) \<noteq> None"
      by simp
    have step: "orders_loop_with S x t x_test t_test cs K [k0..<k0 + Suc n]
               (design x k0) (design x_test k0) tbl =
          orders_loop_with S x t x_test t_test cs K [Suc k0..<Suc k0 + n]
               (design x (Suc k0)) (design x_test (Suc k0)) tbl1"
      unfolding u by (simp only: orders_loop_with.simps Inr sum.case d)
    note IH = Suc.IH [where ?k0.0 = "Suc k0" and tbl = tbl1]
    have "normal_with S (design (np_delete x (arange (cs ! f) (cs ! (f + 1)))) k)
              (np_delete t (arange (cs ! f) (cs ! (f + 1)))) \<noteq> None"
      if r: "orders_loop_with S x t x_test t_test cs K [Suc k0..<Suc k0 + n]
               (design x (Suc k0)) (design x_test (Suc k0)) tbl1 = Inr tbl'"
        and k: "k0 \<le> k" "k < k0 + Suc n" "f < K" for tbl' k f
    proof (cases "k = k0")
      case True
      with here k(3) show ?thesis by simp
    next
      case False
      with k have "Suc k0 \<le> k \<and> k < Suc k0 + n \<and> f < K" by simp
      with IH r show ?thesis by blast
    qed
    with IH show ?thesis unfolding step by blast
  qed
qed

text \<open>
  Claim C4, as the cell has it. An error of the solver is not caught. Whatever routine
  \<open>S\<close> solves the normal equations, returning a vector with one entry for each
  equation when it returns: if \<open>S\<close> raises on the normal equations of any pair of an
  order and a fold, the whole call, for paired arrays of equal lengths, ends with
  \<^verbatim>\<open>LinAlgError\<close> and returns no table, whatever the other pairs gave.
\<close>

theorem solver_error_not_caught:
  assumes "length t = length x" and "length t_test = length x_test"
    and "\<forall>A b w. S A b = Some w \<longrightarrow> length w = length A"
    and "fold_sizes (length x) K = Inr sizes"
    and "k \<le> max_order" and "f < nat K"
    and "normal_with S (map (training_rows (c_sizes sizes) f) (design x k))
           (training_rows (c_sizes sizes) f t) = None"
  shows "evaluate_with S x t x_test t_test max_order K = Inl LinAlgError"
proof -
  let ?cs = "c_sizes sizes"
  let ?r = "orders_loop_with S x t x_test t_test ?cs (nat K) [0..<0 + (max_order + 1)]
      (design x 0) (design x_test 0)
      \<lparr>cv_loss = zeros (nat K) (max_order + 1), ind_loss = zeros (nat K) (max_order + 1),
       train_loss = zeros (nat K) (max_order + 1)\<rparr>"
  have e: "evaluate_with S x t x_test t_test max_order K = ?r"
    by (simp add: evaluate_with_def assms(4) design_0)
  note L = orders_loop_with_design [where S = S and cs = "c_sizes sizes" and K = "nat K"
      and ?k0.0 = 0 and n = "max_order + 1"
      and tbl = "\<lparr>cv_loss = zeros (nat K) (max_order + 1),
        ind_loss = zeros (nat K) (max_order + 1),
        train_loss = zeros (nat K) (max_order + 1)\<rparr>", OF assms(1,2,3)]
  have n: "normal_with S (design (np_delete x (arange (?cs ! f) (?cs ! (f + 1)))) k)
      (np_delete t (arange (?cs ! f) (?cs ! (f + 1)))) = None"
    using assms(7) unfolding design_training np_delete_training .
  show ?thesis
  proof (cases ?r)
    case (Inl err)
    with L have "err = LinAlgError" by blast
    with Inl e show ?thesis by simp
  next
    case (Inr tbl')
    have "0 \<le> k \<and> k < 0 + (max_order + 1) \<and> f < nat K" using assms(5,6) by simp
    with L Inr have "normal_with S (design (np_delete x (arange (?cs ! f) (?cs ! (f + 1)))) k)
      (np_delete t (arange (?cs ! f) (?cs ! (f + 1)))) \<noteq> None" by blast
    with n show ?thesis by simp
  qed
qed

theorem solver_error_not_caught_witness:
  "length [0, 1, 4, 9, 16, 25, 36, 49, 64, 81 :: real] = length [0, 1, 2, 3, 4, 5, 6, 7, 8, 9 :: real]
   \<and> length [0, 1 :: real] = length [0, 1 :: real]
   \<and> fold_sizes (length [0, 1, 2, 3, 4, 5, 6, 7, 8, 9 :: real]) 3 = Inr [1, 1, 8]
   \<and> normal_with solve
        (map (training_rows (c_sizes [1, 1, 8]) 2) (design [0, 1, 2, 3, 4, 5, 6, 7, 8, 9] 2))
        (training_rows (c_sizes [1, 1, 8]) 2 [0, 1, 4, 9, 16, 25, 36, 49, 64, 81]) = None
   \<and> evaluate_with solve [0, 1, 2, 3, 4, 5, 6, 7, 8, 9]
        [0, 1, 4, 9, 16, 25, 36, 49, 64, 81] [0, 1] [0, 1] 2 3 = Inl LinAlgError"
proof -
  have l: "length [0, 1, 4, 9, 16, 25, 36, 49, 64, 81 :: real] =
      length [0, 1, 2, 3, 4, 5, 6, 7, 8, 9 :: real]"
    "length [0, 1 :: real] = length [0, 1 :: real]"
    by simp_all
  have c: "\<forall>A b w. solve A b = Some w \<longrightarrow> length w = length A"
    using solve_length by blast
  have s: "fold_sizes (length [0, 1, 2, 3, 4, 5, 6, 7, 8, 9 :: real]) 3 = Inr [1, 1, 8]"
    by code_simp
  have k: "(2::nat) \<le> 2" "(2::nat) < nat 3" by simp_all
  have "normal_with solve
          (map (\<lambda>c. np_delete c (arange (c_sizes [1, 1, 8] ! 2) (c_sizes [1, 1, 8] ! (2 + 1))))
            (design [0, 1, 2, 3, 4, 5, 6, 7, 8, 9] 2))
          (np_delete [0, 1, 4, 9, 16, 25, 36, 49, 64, 81]
            (arange (c_sizes [1, 1, 8] ! 2) (c_sizes [1, 1, 8] ! (2 + 1)))) = None"
    by code_simp
  then have n: "normal_with solve
        (map (training_rows (c_sizes [1, 1, 8]) 2) (design [0, 1, 2, 3, 4, 5, 6, 7, 8, 9] 2))
        (training_rows (c_sizes [1, 1, 8]) 2 [0, 1, 4, 9, 16, 25, 36, 49, 64, 81]) = None"
    unfolding np_delete_training .
  from solver_error_not_caught [where S = solve, OF l c s k n] l s n show ?thesis by blast
qed

text \<open>
  Claim C4 as stated, refuted: ten rows, three folds, a quadratic response. Up to order 1
  every pair is fitted and the call returns its table; with order 2 the two training rows
  of the last fold leave the elimination, which meets no rounding on these numbers,
  without a third pivot, and the call returns the error alone: no entry for that pair and
  none of the entries of the pairs before it.
\<close>

theorem singular_cell_counterexample:
  "\<not> isl (evaluate [0, 1, 2, 3, 4, 5, 6, 7, 8, 9] [0, 1, 4, 9, 16, 25, 36, 49, 64, 81]
            [0, 1] [0, 1] 1 3)
   \<and> evaluate [0, 1, 2, 3, 4, 5, 6, 7, 8, 9] [0, 1, 4, 9, 16, 25, 36, 49, 64, 81]
            [0, 1] [0, 1] 2 3 = Inl LinAlgError"
  by code_simp

lemma np_delete_prefix: "np_delete xs (arange 0 (int n)) = drop n xs"
proof -
  have "{i. int i \<notin> set (arange 0 (int n))} = {i. n \<le> i}" by (auto simp: arange_def)
  then show ?thesis by (simp add: np_delete_nths drop_eq_nths)
qed

lemma fit_rows_Inr:
  assumes "fit_rows X X_test t t_test lo hi = Inr q"
  shows "nrows (map (\<lambda>c. np_delete c (arange lo hi)) X) = length (np_delete t (arange lo hi))
    \<and> (\<exists>rhs w. solve (dot_TM (map (\<lambda>c. np_delete c (arange lo hi)) X)) rhs = Some w)
    \<and> (nrows X_test = length t_test \<or> nrows X_test = 1 \<or> length t_test = 1)"
proof -
  let ?Xtr = "map (\<lambda>c. np_delete c (arange lo hi)) X"
  from assms obtain rhs w ip dind where
    a: "dot_Tv ?Xtr (np_delete t (arange lo hi)) = Inr rhs"
    and b: "solve (dot_TM ?Xtr) rhs = Some w"
    and c: "dot_Mv X_test w = Inr ip"
    and d: "np_sub ip t_test = Inr dind"
    unfolding fit_rows_def Let_def by (auto split: sum.splits option.splits)
  from a have 1: "nrows ?Xtr = length (np_delete t (arange lo hi))"
    by (auto simp: dot_Tv_def split: if_splits)
  from c have "length ip = nrows X_test"
    by (auto simp: dot_Mv_def split: if_splits)
  moreover from d have "length ip = length t_test \<or> length ip = 1 \<or> length t_test = 1"
    by (auto simp: np_sub_def split: if_splits)
  ultimately have 3: "nrows X_test = length t_test \<or> nrows X_test = 1 \<or> length t_test = 1"
    by simp
  from 1 b 3 show ?thesis by blast
qed

lemma first_cell_shapes:
  assumes "fit_fold (design x 0) (design x_test 0) t t_test cs 0 = Inr q"
    and "cs ! 0 = 0" and "0 \<le> cs ! 1"
  shows "length t = length x
    \<and> (length x_test = length t_test \<or> length x_test = 1 \<or> length t_test = 1)"
proof -
  define c where "c = nat (cs ! 1)"
  have hi: "cs ! (0 + 1) = int c" using assms(3) by (simp add: c_def)
  note F = fit_rows_Inr [OF assms(1) [unfolded fit_fold_def assms(2) hi]]
  have "map (\<lambda>col. np_delete col (arange 0 (int c))) (design x 0) =
      design (np_delete x (arange 0 (int c))) 0"
    by (rule design_np_delete)
  then have tr: "map (\<lambda>col. np_delete col (arange 0 (int c))) (design x 0) = design (drop c x) 0"
    by (simp only: np_delete_prefix)
  note G = F [unfolded tr, unfolded np_delete_prefix]
  from G have r: "length (drop c x) = length (drop c t)"
    by simp
  from G obtain rhs w where s: "solve (dot_TM (design (drop c x) 0)) rhs = Some w"
    by blast
  have "drop c x \<noteq> []"
  proof
    assume "drop c x = []"
    then have "\<forall>col \<in> set (design (drop c x) 0). col = []"
      by (simp add: design_def power_column_def)
    moreover have "design (drop c x) 0 \<noteq> []" by (simp add: design_def)
    ultimately have "solve (dot_TM (design (drop c x) 0)) rhs = None"
      by (intro solve_no_rows)
    with s show False by simp
  qed
  then have "c < length x" by simp
  with r have "length t = length x" by simp
  moreover from G have "length x_test = length t_test \<or> length x_test = 1 \<or> length t_test = 1"
    by simp
  ultimately show ?thesis by simp
qed

text \<open>
  With at least one fold, the only errors of a call are those of the array operations
  and of the solver.
\<close>

lemma dot_Tv_error: "dot_Tv X t = Inl e \<Longrightarrow> e = ValueError"
  by (auto simp: dot_Tv_def split: if_splits)

lemma dot_Mv_error: "dot_Mv X w = Inl e \<Longrightarrow> e = ValueError"
  by (auto simp: dot_Mv_def split: if_splits)

lemma np_sub_error: "np_sub p q = Inl e \<Longrightarrow> e = ValueError"
  by (auto simp: np_sub_def split: if_splits)

lemma fit_rows_error_kind:
  assumes "fit_rows X X_test t t_test lo hi = Inl e"
  shows "e = ValueError \<or> e = LinAlgError"
  using assms unfolding fit_rows_def Let_def
  by (auto split: sum.splits option.splits dest: dot_Tv_error dot_Mv_error np_sub_error)

lemma folds_loop_error_kind:
  assumes "folds_loop X X_test t t_test cs k fs tbl = Inl e"
  shows "e = ValueError \<or> e = LinAlgError"
  using assms
proof (induction fs arbitrary: tbl)
  case Nil
  then show ?case by simp
next
  case (Cons f fs)
  show ?case
  proof (cases "fit_fold X X_test t t_test cs f")
    case (Inl e')
    with Cons.prems have "e = e'" by (simp add: cell_fit_fold)
    with Inl show ?thesis unfolding fit_fold_def by (auto dest: fit_rows_error_kind)
  next
    case (Inr q)
    with Cons.prems have "folds_loop X X_test t t_test cs k fs (record_fit tbl f k q) = Inl e"
      by (simp add: cell_fit_fold)
    then show ?thesis by (rule Cons.IH)
  qed
qed

lemma orders_scratch_error_kind:
  assumes "orders_scratch x t x_test t_test cs K ks tbl = Inl e"
  shows "e = ValueError \<or> e = LinAlgError"
  using assms
proof (induction ks arbitrary: tbl)
  case Nil
  then show ?case by simp
next
  case (Cons k ks)
  show ?case
  proof (cases "folds_loop (design x k) (design x_test k) t t_test cs k [0..<K] tbl")
    case (Inl e')
    with Cons.prems have "e = e'" by simp
    with Inl show ?thesis by (auto dest: folds_loop_error_kind)
  next
    case (Inr t1)
    with Cons.prems have "orders_scratch x t x_test t_test cs K ks t1 = Inl e" by simp
    then show ?thesis by (rule Cons.IH)
  qed
qed

lemma evaluate_error_kind:
  assumes "evaluate x t x_test t_test max_order K = Inl e" and "1 \<le> K"
  shows "e = ValueError \<or> e = LinAlgError"
proof -
  from assms(2) have "K = int (Suc (nat K - 1))" by simp
  then obtain m where K: "K = int (Suc m)" ..
  obtain sizes where s: "fold_sizes (length x) K = Inr sizes"
    unfolding K fold_sizes_Suc by blast
  from assms(1) have "orders_scratch x t x_test t_test (c_sizes sizes) (nat K) [0..<max_order + 1]
            \<lparr>cv_loss = zeros (nat K) (max_order + 1),
             ind_loss = zeros (nat K) (max_order + 1),
             train_loss = zeros (nat K) (max_order + 1)\<rparr> = Inl e"
    unfolding evaluate_eq_scratch evaluate_scratch_def s by simp
  then show ?thesis by (rule orders_scratch_error_kind)
qed

text \<open>
  Claim C8, as the cell has it. The lengths are not compared. With at least one fold, the
  call fails when \<open>x\<close> and \<open>t\<close> have different numbers of rows, and when \<open>x_test\<close>
  and \<open>t_test\<close> have different numbers of rows neither of which is one: the first pair,
  order 0 and fold 0, cannot be computed. The error is the \<^verbatim>\<open>ValueError\<close> of an array
  operation or the \<^verbatim>\<open>LinAlgError\<close> of the solver.
\<close>

theorem unequal_lengths_fail:
  assumes "1 \<le> K"
    and "length x \<noteq> length t
         \<or> (length x_test \<noteq> length t_test \<and> length x_test \<noteq> 1 \<and> length t_test \<noteq> 1)"
  shows "evaluate x t x_test t_test max_order K = Inl ValueError
         \<or> evaluate x t x_test t_test max_order K = Inl LinAlgError"
proof (cases "evaluate x t x_test t_test max_order K")
  case (Inl e)
  then show ?thesis using evaluate_error_kind [OF Inl assms(1)] by auto
next
  case (Inr tbl)
  have k: "0 < nat K" using assms(1) by simp
  from evaluate_cells [OF Inr] k obtain sizes q where s: "fold_sizes (length x) K = Inr sizes"
    and q: "fit_fold (design x 0) (design x_test 0) t t_test (c_sizes sizes) 0 = Inr q"
    by blast
  have "c_sizes sizes ! 0 = 0" by (simp add: c_sizes_def)
  moreover have "0 \<le> c_sizes sizes ! 1" using c_sizes_nonneg(2) [OF s k] by simp
  ultimately have False using first_cell_shapes [OF q] assms(2) by auto
  then show ?thesis ..
qed

theorem unequal_lengths_fail_witness:
  "(1::int) \<le> 3
   \<and> length [0, 1, 2, 3, 4, 5, 6, 7, 8, 9 :: real] \<noteq> length [1, 3, 5, 7, 9, 11, 13, 15, 17 :: real]
   \<and> evaluate [0, 1, 2, 3, 4, 5, 6, 7, 8, 9] [1, 3, 5, 7, 9, 11, 13, 15, 17]
            [0, 1] [1, 3] 0 3 = Inl ValueError"
proof -
  have h: "(1::int) \<le> 3" by simp
  have l: "length [0, 1, 2, 3, 4, 5, 6, 7, 8, 9 :: real] \<noteq>
           length [1, 3, 5, 7, 9, 11, 13, 15, 17 :: real]" by simp
  from l have "length [0, 1, 2, 3, 4, 5, 6, 7, 8, 9 :: real] \<noteq>
           length [1, 3, 5, 7, 9, 11, 13, 15, 17 :: real]
         \<or> (length [0, 1 :: real] \<noteq> length [1, 3 :: real] \<and> length [0, 1 :: real] \<noteq> 1
            \<and> length [1, 3 :: real] \<noteq> 1)" ..
  from unequal_lengths_fail [OF h this] have
    "evaluate [0, 1, 2, 3, 4, 5, 6, 7, 8, 9] [1, 3, 5, 7, 9, 11, 13, 15, 17]
            [0, 1] [1, 3] 0 3 = Inl ValueError
     \<or> evaluate [0, 1, 2, 3, 4, 5, 6, 7, 8, 9] [1, 3, 5, 7, 9, 11, 13, 15, 17]
            [0, 1] [1, 3] 0 3 = Inl LinAlgError" .
  moreover have "evaluate [0, 1, 2, 3, 4, 5, 6, 7, 8, 9] [1, 3, 5, 7, 9, 11, 13, 15, 17]
            [0, 1] [1, 3] 0 3 \<noteq> Inl LinAlgError" by code_simp
  ultimately show ?thesis using h l by blast
qed

text \<open>
  Claim C8 as stated, refuted: two test inputs and a single test response. The response
  is broadcast over the two predictions and the call returns its table.
\<close>

theorem unequal_lengths_counterexample:
  "evaluate [0, 1, 2, 3, 4, 5, 6, 7, 8, 9] [1, 3, 5, 7, 9, 11, 13, 15, 17, 19] [0, 1] [1] 0 3 =
     Inr \<lparr>cv_loss = [[Num 100], [Num (4900 / 81)], [Num 121]],
          ind_loss = [[Num 100], [Num (7744 / 81)], [Num 1]],
          train_loss = [[Num (80 / 3)], [Num (2480 / 81)], [Num 1]]\<rparr>"
  by code_simp

lemma fold_sizes_one: "fold_sizes N 1 = Inr [int N]"
  by (simp add: fold_sizes_def tile_sizes_def absorb_rest_def)

lemma solve_zero1: "solve [[0]] [b] = None"
  by (simp add: solve_def)

lemma cell_single_fold:
  assumes "length c = N"
  shows "cell [c] X_test t t_test [0, int N] k 0 tbl =
     Inl (if length t \<le> N then LinAlgError else ValueError)"
proof -
  have d: "np_delete c (arange 0 (int N)) = []"
    using assms by (simp add: np_delete_prefix)
  show ?thesis
    using assms
    by (simp add: cell_def Let_def d np_delete_prefix dot_Tv_def nrows_def dot_TM_def dot_def
        solve_zero1)
qed

text \<open>
  Claim C3, as the cell has it. With a single fold the rows that are held out are all
  rows, and the training subset, their complement, has no row. The matrix of the normal
  equations is then the zero matrix and the first pair, order 0 and fold 0, ends the call
  with the solver's error (with the error of the matrix product when \<open>t\<close> has more rows
  than \<open>x\<close>).
\<close>

theorem single_fold_fails:
  "evaluate x t x_test t_test max_order 1 =
     Inl (if length t \<le> length x then LinAlgError else ValueError)"
proof -
  have o: "[0..<max_order + 1] = 0 # [1..<max_order + 1]"
    by (simp add: upt_conv_Cons)
  show ?thesis
    unfolding evaluate_def fold_sizes_one o
    by (simp add: c_sizes_def ones_like_def cell_single_fold)
qed

text \<open>
  Claim C3 as stated, refuted: three rows, one fold. The call does not return a table in
  which the cross-validation loss could equal the training loss.
\<close>

theorem single_fold_counterexample:
  "evaluate [0, 1, 2] [1, 3, 5] [0, 1] [1, 3] 0 1 = Inl LinAlgError"
  by code_simp

text \<open>
  Claim C7, as the cell has it. There is no check of the fold count against the number
  of rows. A fold count of zero ends the call before the sweep, when the last entry of the
  empty array of sizes is assigned; a negative one ends it when the array is built.
\<close>

theorem fold_count_not_positive:
  "evaluate x t x_test t_test max_order 0 = Inl IndexError
   \<and> evaluate x t x_test t_test max_order (- 1 - int n) = Inl ValueError"
  by (simp add: evaluate_def fold_sizes_def tile_sizes_def absorb_rest_def)

text \<open>
  Claim C7 as stated, refuted: five rows and seven folds. The sizes of the folds are those
  of the balanced partition, six folds without a row and one with all five. Nothing
  rejects the fold count: the pairs of order 0 with the first six folds are computed and
  recorded, and the call ends only at the seventh, whose training subset has no row, with
  the error of the solver.
\<close>

theorem fold_count_above_rows_counterexample:
  "int (length [0, 1, 2, 3, 4 :: real]) < 7
   \<and> fold_sizes (length [0, 1, 2, 3, 4 :: real]) 7 = Inr [0, 0, 0, 0, 0, 0, 5]
   \<and> spec_fold_sizes (length [0, 1, 2, 3, 4 :: real]) 7 = [0, 0, 0, 0, 0, 0, 5]
   \<and> folds_loop (ones_like [0, 1, 2, 3, 4]) (ones_like [0]) [1, 2, 3, 4, 5] [1]
         (c_sizes [0, 0, 0, 0, 0, 0, 5]) 0 [0..<6]
         \<lparr>cv_loss = zeros 7 1, ind_loss = zeros 7 1, train_loss = zeros 7 1\<rparr> =
       Inr \<lparr>cv_loss = replicate 6 [NaN] @ [[Num 0]],
            ind_loss = replicate 6 [Num 4] @ [[Num 0]],
            train_loss = replicate 6 [Num 2] @ [[Num 0]]\<rparr>
   \<and> evaluate [0, 1, 2, 3, 4] [1, 2, 3, 4, 5] [0] [1] 0 7 = Inl LinAlgError"
  by code_simp

section \<open>The returned table\<close>

text \<open>
  A table that the call returns has \<open>K\<close> rows of \<open>max_order + 1\<close> entries in each
  of its three arrays, and every loss in it is a non-negative number or NaN.
\<close>

lemma mean_sq_cases: "mean_sq d = NaN \<or> (\<exists>v. 0 \<le> v \<and> mean_sq d = Num v)"
proof (cases "d = []")
  case True
  then show ?thesis by (simp add: mean_sq_def)
next
  case False
  have "0 \<le> sum_list (map (\<lambda>v. v ^ 2) d)" by (rule sum_list_nonneg) auto
  then have "0 \<le> sum_list (map (\<lambda>v. v ^ 2) d) / real (length d)" by simp
  then show ?thesis using False by (simp add: mean_sq_def)
qed

lemma fit_rows_losses:
  assumes "fit_rows X X_test t t_test lo hi = Inr q"
  shows "\<exists>d1 d2 d3. cv q = mean_sq d1 \<and> ind q = mean_sq d2 \<and> train q = mean_sq d3"
  using assms unfolding fit_rows_def Let_def
  by (auto split: sum.splits option.splits)

lemma returned_table:
  assumes "evaluate x t x_test t_test max_order K = Inr tbl"
  shows "shaped (nat K) (max_order + 1) tbl"
    and "k \<le> max_order \<Longrightarrow> f < nat K \<Longrightarrow> a \<in> {cv_loss tbl ! f ! k, ind_loss tbl ! f ! k, train_loss tbl ! f ! k}
      \<Longrightarrow> a = NaN \<or> (\<exists>v. 0 \<le> v \<and> a = Num v)"
proof -
  from evaluate_cells [OF assms] obtain sizes where s: "shaped (nat K) (max_order + 1) tbl"
    and c: "\<forall>k \<le> max_order. \<forall>f < nat K.
        \<exists>q. fit_fold (design x k) (design x_test k) t t_test (c_sizes sizes) f = Inr q
          \<and> recorded tbl f k q" by blast
  show "shaped (nat K) (max_order + 1) tbl" by (rule s)
  assume "k \<le> max_order" "f < nat K"
    and a: "a \<in> {cv_loss tbl ! f ! k, ind_loss tbl ! f ! k, train_loss tbl ! f ! k}"
  with c obtain q where q: "fit_fold (design x k) (design x_test k) t t_test (c_sizes sizes) f = Inr q"
    and r: "recorded tbl f k q" by blast
  from fit_rows_losses [OF q [unfolded fit_fold_def]] obtain d1 d2 d3
    where "cv q = mean_sq d1" "ind q = mean_sq d2" "train q = mean_sq d3" by blast
  with r a have "a = mean_sq d1 \<or> a = mean_sq d2 \<or> a = mean_sq d3"
    by (auto simp: recorded_def)
  then show "a = NaN \<or> (\<exists>v. 0 \<le> v \<and> a = Num v)" using mean_sq_cases by metis
qed

text \<open>
  Claim C9. With twenty rows and eleven folds, a fold count within \<open>1..N\<close>, the ten
  folds of two rows use up all rows and the eleventh fold is empty: its cross-validation
  loss is the mean of no number, NaN, which is not a non-negative number.
\<close>

theorem empty_fold_loss_nan:
  "evaluate (map real [0..<20]) (replicate 20 1) [0] [1] 0 11 =
     Inr \<lparr>cv_loss = replicate 10 [Num 0] @ [[NaN]],
          ind_loss = replicate 11 [Num 0],
          train_loss = replicate 11 [Num 0]\<rparr>"
  by code_simp

end
